theory Spec2Isabelle
  imports Complex_Main "HOL-Library.Log_Nat"
begin

section \<open>Numbers and rows\<close>

text \<open>
  The pages and the advice handler read rows of three tables and reduce them with
  JavaScript arithmetic. A JavaScript number is a binary64 number. It is modelled by the
  rational it denotes, and an operation of the code by the exact operation followed by
  the rounding to binary64: \<open>parseFloat64\<close>, \<open>plus64\<close>, \<open>minus64\<close>, \<open>times64\<close> and
  \<open>divide64\<close> below. Every function whose name ends in 64 is the source's function of
  that name with its arithmetic read this way.

  The goal cards and the contributions have a second reading, in which \<open>parseFloat\<close> is
  the identity and the operations are exact: \<open>progress\<close>, \<open>monthlyNeeded\<close>, \<open>renderGoal\<close>,
  \<open>addAmount\<close> and \<open>clickAdd\<close>. It carries the statements that rounding does not touch:
  whether a card has a pacing line, and what a contribution in cents stores. The last
  section relates the two readings.

  The amount columns are \<open>DECIMAL(10, 2)\<close>, and every row the pages write holds a number
  there: a row carries the decimal the column holds. Where the source writes
  \<open>data?.reduce(...) || 0\<close> the data may be \<open>null\<close> (the query failed): a list option
  here, and \<open>orZero\<close> is the \<open>|| 0\<close>.
\<close>

definition parseFloat :: "rat \<Rightarrow> rat" where
  "parseFloat s = s"

definition orZero :: "rat option \<Rightarrow> rat" where
  "orZero r = (case r of None \<Rightarrow> 0 | Some x \<Rightarrow> (if x = 0 then 0 else x))"

record money_row =
  amount :: rat

record income_row = money_row +
  frequency :: string

record expense_row = money_row +
  category :: string

record savings_row =
  target_amount :: rat
  current_amount :: rat

section \<open>binary64\<close>

text \<open>
  \<open>parseFloat\<close> gives the binary64 number nearest to the decimal it reads, and \<open>+\<close>, \<open>-\<close>,
  \<open>*\<close>, \<open>/\<close> the one nearest to the exact result, ties going to the even significand.
  \<open>binary64 x\<close> is that rounding of a rational \<open>x\<close>: with \<open>2^k \<le> |x| < 2^(k+1)\<close> (\<open>k\<close> is
  \<open>binade x\<close>), the nearest multiple of \<open>2^(k-52)\<close>. The exponent range is left open (no
  overflow to Infinity, no subnormal numbers): an amount of the column is 0 or from 0.01
  to below 10^8, and so are the sums of some hundreds of them, far inside the range
  where binary64 has its 53 bits.
\<close>

definition binade :: "rat \<Rightarrow> int" where
  "binade x =
     (let (p, q) = quotient_of \<bar>x\<bar>;
          k = int (floorlog 2 (nat p)) - int (floorlog 2 (nat q))
      in if 2 powi k \<le> \<bar>x\<bar> then k else k - 1)"

definition round_even :: "rat \<Rightarrow> int" where
  "round_even q =
     (let f = \<lfloor>q\<rfloor>; d = q - of_int f in
      if d < 1 / 2 then f
      else if 1 / 2 < d then f + 1
      else if even f then f else f + 1)"

definition binary64 :: "rat \<Rightarrow> rat" where
  "binary64 x =
     (if x = 0 then 0
      else let e = binade x - 52 in of_int (round_even (x / 2 powi e)) * 2 powi e)"

definition parseFloat64 :: "rat \<Rightarrow> rat" where
  "parseFloat64 s = binary64 s"

definition plus64 :: "rat \<Rightarrow> rat \<Rightarrow> rat" where
  "plus64 a b = binary64 (a + b)"

definition minus64 :: "rat \<Rightarrow> rat \<Rightarrow> rat" where
  "minus64 a b = binary64 (a - b)"

definition times64 :: "rat \<Rightarrow> rat \<Rightarrow> rat" where
  "times64 a b = binary64 (a * b)"

definition divide64 :: "rat \<Rightarrow> rat \<Rightarrow> rat" where
  "divide64 a b = binary64 (a / b)"

text \<open>
  \<open>toFixed(2)\<close> and \<open>toFixed(0)\<close> print the nearest multiple of 0.01 and the nearest
  integer, the larger one of two equally near, with the sign set apart.
\<close>

definition toFixed2 :: "rat \<Rightarrow> rat" where
  "toFixed2 x =
     (if x < 0 then - (of_int \<lfloor>100 * (- x) + 1 / 2\<rfloor> / 100)
      else of_int \<lfloor>100 * x + 1 / 2\<rfloor> / 100)"

definition toFixed0 :: "rat \<Rightarrow> int" where
  "toFixed0 x = (if x < 0 then - \<lfloor>- x + 1 / 2\<rfloor> else \<lfloor>x + 1 / 2\<rfloor>)"

text \<open>
  \<open>toString\<close> of a number, and the number in the body of a request, is the shortest
  decimal that reads back as the same binary64 number: with \<open>k\<close> digits, for the least
  \<open>k\<close> that has such a decimal, and of two such decimals the one nearer to the number
  (the even one of two equally near). \<open>with_digits k x\<close> looks at the two decimals of \<open>k\<close>
  digits around a positive \<open>x\<close>, and \<open>decade x\<close> is the \<open>n\<close> with \<open>10^n \<le> |x| < 10^(n+1)\<close>.
  Seventeen digits always have such a decimal, so the search goes to 17; the value it
  ends with is the number itself, which is a decimal too. \<open>toString64 x\<close> is the rational
  that decimal denotes: for the binary64 number 1.00499999999999989..., the sum of 1 and
  0.005, it is 1.005.
\<close>

definition decade :: "rat \<Rightarrow> int" where
  "decade x =
     (let (p, q) = quotient_of \<bar>x\<bar>;
          k = int (floorlog 10 (nat p)) - int (floorlog 10 (nat q))
      in if 10 powi k \<le> \<bar>x\<bar> then k else k - 1)"

definition with_digits :: "nat \<Rightarrow> rat \<Rightarrow> rat option" where
  "with_digits k x =
     (let u = 10 powi (decade x + 1 - int k);
          s = \<lfloor>x / u\<rfloor>;
          lo = of_int s * u;
          hi = of_int (s + 1) * u;
          l = (binary64 lo = x);
          h = (binary64 hi = x)
      in if l \<and> h
         then Some (if x - lo < hi - x then lo
                    else if hi - x < x - lo then hi
                    else if even s then lo else hi)
         else if l then Some lo
         else if h then Some hi
         else None)"

fun shortest_from :: "nat list \<Rightarrow> rat \<Rightarrow> rat" where
  "shortest_from [] x = x"
| "shortest_from (k # ks) x =
     (case with_digits k x of Some d \<Rightarrow> d | None \<Rightarrow> shortest_from ks x)"

definition toString64 :: "rat \<Rightarrow> rat" where
  "toString64 x =
     (if x = 0 then 0
      else if x < 0 then - shortest_from [1, 2, 3, 4, 5, 6, 7, 8, 9, 10, 11, 12, 13, 14, 15, 16, 17] (- x)
      else shortest_from [1, 2, 3, 4, 5, 6, 7, 8, 9, 10, 11, 12, 13, 14, 15, 16, 17] x)"

section \<open>Dashboard.tsx: fetchDashboardData\<close>

text \<open>
  Lines 54-59, and the same reduction at lines 135-140 of the advice handler: the income
  normalised to a month; line 138 prints it with \<open>toFixed(2)\<close>.
\<close>

definition incomeStep64 :: "rat \<Rightarrow> income_row \<Rightarrow> rat" where
  "incomeStep64 = (\<lambda>sum item.
     let amt = parseFloat64 (amount item) in
     if frequency item = ''yearly'' then plus64 sum (divide64 amt 12)
     else if frequency item = ''monthly'' then plus64 sum amt
     else sum)"

definition totalIncome64 :: "income_row list option \<Rightarrow> rat" where
  "totalIncome64 incomeData = orZero (map_option (foldl incomeStep64 0) incomeData)"

text \<open>Line 67: the grand total of the expenses; line 149 prints it with \<open>toFixed(2)\<close>.\<close>

definition totalExpenses64 :: "expense_row list option \<Rightarrow> rat" where
  "totalExpenses64 expensesData =
     orZero (map_option
       (foldl (\<lambda>sum item. plus64 sum (parseFloat64 (amount item))) 0) expensesData)"

text \<open>
  Lines 70-78: the per-category totals, an array of \<open>{name, value}\<close> objects. \<open>acc.find\<close>
  returns the first entry of the category and \<open>existing.value += ...\<close> changes that entry
  in place (\<open>addTo64\<close>); without one, the entry is pushed at the end.
\<close>

record slice =
  name :: string
  "value" :: rat

fun addTo64 :: "string \<Rightarrow> rat \<Rightarrow> slice list \<Rightarrow> slice list" where
  "addTo64 c a [] = []"
| "addTo64 c a (e # es) =
     (if name e = c then e\<lparr>value := plus64 (value e) a\<rparr> # es else e # addTo64 c a es)"

definition categoryStep64 :: "slice list \<Rightarrow> expense_row \<Rightarrow> slice list" where
  "categoryStep64 acc item =
     (case find (\<lambda>e. name e = category item) acc of
        Some existing \<Rightarrow> addTo64 (category item) (parseFloat64 (amount item)) acc
      | None \<Rightarrow> acc @ [\<lparr>name = category item, value = parseFloat64 (amount item)\<rparr>])"

definition expensesByCategory64 :: "expense_row list option \<Rightarrow> slice list" where
  "expensesByCategory64 expensesData =
     (case expensesData of None \<Rightarrow> [] | Some items \<Rightarrow> foldl categoryStep64 [] items)"

text \<open>
  Lines 86-88: the progress over all savings goals, in percent; line 171 prints it with
  \<open>toFixed(0)\<close>.
\<close>

definition totalTargetSavings64 :: "savings_row list option \<Rightarrow> rat" where
  "totalTargetSavings64 savingsData =
     orZero (map_option
       (foldl (\<lambda>sum item. plus64 sum (parseFloat64 (target_amount item))) 0) savingsData)"

definition totalCurrentSavings64 :: "savings_row list option \<Rightarrow> rat" where
  "totalCurrentSavings64 savingsData =
     orZero (map_option
       (foldl (\<lambda>sum item. plus64 sum (parseFloat64 (current_amount item))) 0) savingsData)"

definition savingsGoalProgress64 :: "savings_row list option \<Rightarrow> rat" where
  "savingsGoalProgress64 savingsData =
     (if totalTargetSavings64 savingsData > 0
      then times64 (divide64 (totalCurrentSavings64 savingsData) (totalTargetSavings64 savingsData)) 100
      else 0)"

section \<open>Savings.tsx: the goal cards\<close>

text \<open>
  A goal as the page holds it (the \<open>SavingsGoal\<close> interface). \<open>target_date\<close> is
  \<open>new Date(goal.target_date).getTime()\<close>, the milliseconds since the epoch, and \<open>now\<close>
  below is \<open>new Date().getTime()\<close>.
\<close>

record SavingsGoal = savings_row +
  id :: string
  goal_name :: string
  target_date :: int

text \<open>
  Lines 248-254, computed for every card, in the exact reading. With a target of 0 the
  quotient of line 248 is no finite number (\<open>None\<close>); the table's check keeps targets
  positive. The days are whole: the milliseconds of two dates differ by less than 2^53,
  and \<open>Math.ceil\<close> of their quotient by 86400000 is the ceiling of the exact quotient.
\<close>

definition progress :: "'a SavingsGoal_scheme \<Rightarrow> rat option" where
  "progress goal =
     (if parseFloat (target_amount goal) = 0 then None
      else Some ((parseFloat (current_amount goal) / parseFloat (target_amount goal)) * 100))"

definition daysUntilTarget :: "'a SavingsGoal_scheme \<Rightarrow> int \<Rightarrow> int" where
  "daysUntilTarget goal now = \<lceil>(of_int (target_date goal - now) :: rat) / (1000 * 60 * 60 * 24)\<rceil>"

definition monthlyNeeded :: "'a SavingsGoal_scheme \<Rightarrow> int \<Rightarrow> rat" where
  "monthlyNeeded goal now =
     (if daysUntilTarget goal now > 0
      then (parseFloat (target_amount goal) - parseFloat (current_amount goal))
             / (of_int (daysUntilTarget goal now) / 30)
      else 0)"

text \<open>
  Lines 290-297: the line "Save $X/month to reach goal" is part of the card only under
  the guard \<open>monthlyNeeded > 0\<close>; \<open>X\<close> is \<open>monthlyNeeded\<close>, printed to two decimals. The
  card is modelled by what it shows: the progress and, when the line is there, its
  figure.
\<close>

record card =
  shown_progress :: "rat option"
  pacing :: "rat option"

definition renderGoal :: "'a SavingsGoal_scheme \<Rightarrow> int \<Rightarrow> card" where
  "renderGoal goal now =
     \<lparr>shown_progress = progress goal,
      pacing = (if monthlyNeeded goal now > 0 then Some (monthlyNeeded goal now) else None)\<rparr>"

text \<open>
  Lines 252-254 with the rounding written out: the two \<open>parseFloat\<close>, the difference,
  \<open>daysUntilTarget / 30\<close> and the quotient each round.
\<close>

definition monthlyNeeded64 :: "'a SavingsGoal_scheme \<Rightarrow> int \<Rightarrow> rat" where
  "monthlyNeeded64 goal now =
     (if daysUntilTarget goal now > 0
      then divide64
             (minus64 (parseFloat64 (target_amount goal)) (parseFloat64 (current_amount goal)))
             (divide64 (of_int (daysUntilTarget goal now)) 30)
      else 0)"

section \<open>Savings.tsx: contributions to a goal\<close>

text \<open>
  The table \<open>savings_goals\<close> as the migration declares it, for the one column the page
  updates: \<open>current_amount DECIMAL(10, 2) DEFAULT 0 CHECK (current_amount >= 0)\<close>. A
  value written to the column is taken to two decimals, the nearer one and, of two
  equally near, the one away from zero; a result of 10^8 or more in absolute value does
  not fit the precision and is an error. \<open>update({current_amount: v}).eq("id", i)\<close> sets
  the column in every row with that id; a row that would break the check makes the
  statement fail with nothing changed. The rows are those of the signed-in user. The two
  messages are PostgreSQL's.
\<close>

definition numeric_overflow :: string where
  "numeric_overflow = ''numeric field overflow''"

definition check_violation :: string where
  \<open>check_violation =
     ''new row for relation "savings_goals" violates check constraint "savings_goals_current_amount_check"''\<close>

definition numeric_10_2 :: "rat \<Rightarrow> string + rat" where
  "numeric_10_2 v =
     (let r = (if v < 0 then - (of_int \<lfloor>100 * (- v) + 1 / 2\<rfloor> / 100)
               else of_int \<lfloor>100 * v + 1 / 2\<rfloor> / 100)
      in if 10 ^ 8 \<le> \<bar>r\<bar> then Inl numeric_overflow else Inr r)"

definition update_current_amount :: "string \<Rightarrow> rat \<Rightarrow> SavingsGoal list \<Rightarrow> string + SavingsGoal list" where
  "update_current_amount i v rows =
     (case numeric_10_2 v of
        Inl message \<Rightarrow> Inl message
      | Inr r \<Rightarrow>
          if i \<in> set (map id rows) \<and> r < 0 then Inl check_violation
          else Inr (map (\<lambda>g. if id g = i then g\<lparr>current_amount := r\<rparr> else g) rows))"

text \<open>
  The state the handlers work on: the table, the page's \<open>savingsGoals\<close> (what the cards
  are drawn from) and the toasts shown so far.
\<close>

record toast =
  title :: string
  description :: string

record world =
  savings_goals :: "SavingsGoal list"
  savingsGoals :: "SavingsGoal list"
  toasts :: "toast list"

text \<open>Lines 45-67: the rows, ordered by target date, become the page's goals.\<close>

definition fetchSavingsGoals :: "world \<Rightarrow> world" where
  "fetchSavingsGoals w = w\<lparr>savingsGoals := sort_key target_date (savings_goals w)\<rparr>"

text \<open>
  Lines 108-130. \<open>newAmount\<close> is the decimal that \<open>newTotal.toString()\<close> writes. \<open>parseFloat\<close>
  reads it back as the number it came from, and the body of the request writes that
  number as the same decimal again: the column receives the decimal \<open>newAmount\<close>.
\<close>

definition handleUpdateProgress :: "string \<Rightarrow> rat \<Rightarrow> world \<Rightarrow> world" where
  "handleUpdateProgress i newAmount w =
     (case update_current_amount i (parseFloat newAmount) (savings_goals w) of
        Inl message \<Rightarrow> w\<lparr>toasts := toasts w @ [\<lparr>title = ''Error'', description = message\<rparr>]\<rparr>
      | Inr rows \<Rightarrow>
          fetchSavingsGoals
            (w\<lparr>savings_goals := rows,
               toasts := toasts w @ [\<lparr>title = ''Success'', description = ''Progress updated.''\<rparr>]\<rparr>))"

text \<open>
  Lines 299-323: the "Add amount" field of a card and its Add button (the Enter key runs
  the same three statements). The field is \<open>type="number"\<close>: its value is the text of a
  number, or empty (\<open>None\<close>), and \<open>input.value || "0"\<close> reads the empty field as 0. \<open>goal\<close>
  is the goal the card was drawn from.
\<close>

definition valueOrZero :: "rat option \<Rightarrow> rat" where
  "valueOrZero input = (case input of None \<Rightarrow> 0 | Some v \<Rightarrow> v)"

definition addAmount :: "SavingsGoal \<Rightarrow> rat option \<Rightarrow> world \<Rightarrow> world" where
  "addAmount goal input w =
     (let newTotal = parseFloat (current_amount goal) + parseFloat (valueOrZero input)
      in handleUpdateProgress (id goal) newTotal w)"

text \<open>
  The user presses Add on the card of goal \<open>i\<close>; \<open>amountOf\<close> reads the stored amount of
  a goal.
\<close>

definition clickAdd :: "string \<Rightarrow> rat option \<Rightarrow> world \<Rightarrow> world" where
  "clickAdd i input w =
     (case find (\<lambda>g. id g = i) (savingsGoals w) of
        None \<Rightarrow> w
      | Some goal \<Rightarrow> addAmount goal input w)"

definition amountOf :: "string \<Rightarrow> world \<Rightarrow> rat option" where
  "amountOf i w = map_option current_amount (find (\<lambda>g. id g = i) (savings_goals w))"

definition shown :: "world \<Rightarrow> bool" where
  "shown w \<longleftrightarrow>
     savingsGoals w = sort_key target_date (savings_goals w) \<and> distinct (map id (savings_goals w))"

text \<open>
  The Add button with the rounding written out: the two \<open>parseFloat\<close> and the sum round,
  and \<open>toString\<close> writes the shortest decimal of the result. \<open>sent a input\<close> is the decimal
  the table receives when the card holds \<open>a\<close>.
\<close>

definition addAmount64 :: "SavingsGoal \<Rightarrow> rat option \<Rightarrow> world \<Rightarrow> world" where
  "addAmount64 goal input w =
     (let newTotal = plus64 (parseFloat64 (current_amount goal)) (parseFloat64 (valueOrZero input))
      in handleUpdateProgress (id goal) (toString64 newTotal) w)"

definition clickAdd64 :: "string \<Rightarrow> rat option \<Rightarrow> world \<Rightarrow> world" where
  "clickAdd64 i input w =
     (case find (\<lambda>g. id g = i) (savingsGoals w) of
        None \<Rightarrow> w
      | Some goal \<Rightarrow> addAmount64 goal input w)"

definition sent :: "rat \<Rightarrow> rat option \<Rightarrow> rat" where
  "sent a input = toString64 (plus64 (parseFloat64 a) (parseFloat64 (valueOrZero input)))"

section \<open>The advice handler\<close>

text \<open>
  The \<open>serve\<close> callback of the edge function. What it reads from outside is a parameter:
  the request (its method, the result of \<open>req.json()\<close>, the Authorization header) and the
  deployment (the API key of the environment, \<open>supabase.auth.getUser\<close>, the three tables
  by user, and the AI gateway). \<open>req.json()\<close> and \<open>response.json()\<close> throw on a body that
  is not JSON, and \<open>fetch\<close> throws when the gateway cannot be reached: \<open>Inl\<close> of the
  error's message, or \<open>Failed\<close>.
\<close>

record request =
  "method" :: string
  json :: "string + string option"
  authorization :: "string option"

datatype prompt =
  Question string
  | Summary rat rat rat "(string \<times> rat) list" nat

datatype reply =
  Failed string
  | Reply nat "string + string option"

record deployment =
  LOVABLE_API_KEY :: "string option"
  getUser :: "string \<Rightarrow> string option"
  income_sources :: "string \<Rightarrow> income_row list option"
  expenses :: "string \<Rightarrow> expense_row list option"
  goals :: "string \<Rightarrow> SavingsGoal list option"
  gateway :: "prompt \<Rightarrow> reply"

datatype body =
  NoBody
  | Error string
  | Recommendation "string option"

record response =
  status :: nat
  body :: body

text \<open>\<open>authHeader.replace('Bearer ', '')\<close>: the first occurrence is cut out.\<close>

fun replace_first :: "string \<Rightarrow> string \<Rightarrow> string" where
  "replace_first p [] = []"
| "replace_first p (c # cs) =
     (if take (length p) (c # cs) = p then drop (length p) (c # cs)
      else c # replace_first p cs)"

text \<open>
  Lines 145-148: the category totals as an object, \<open>acc[c] = (acc[c] || 0) + amount\<close>;
  a new key goes last.
\<close>

definition objectStep64 :: "(string \<times> rat) list \<Rightarrow> expense_row \<Rightarrow> (string \<times> rat) list" where
  "objectStep64 acc item =
     (let v = plus64 (orZero (map_of acc (category item))) (parseFloat64 (amount item)) in
      if category item \<in> set (map fst acc)
      then map (\<lambda>(k, x). if k = category item then (k, v) else (k, x)) acc
      else acc @ [(category item, v)])"

text \<open>
  Lines 135-168: the user prompt is the question of the request when it has one (a
  non-empty \<open>userFinancialData\<close>), else the summary of the user's rows: income, expenses
  and available funds as \<open>toFixed(2)\<close> prints them, the category totals as
  \<open>JSON.stringify\<close> writes them, and the number of goals.
\<close>

definition userPrompt :: "deployment \<Rightarrow> string option \<Rightarrow> string \<Rightarrow> prompt" where
  "userPrompt d userFinancialData user =
     (let income = totalIncome64 (income_sources d user);
          spent = totalExpenses64 (expenses d user);
          byCategory = (case expenses d user of None \<Rightarrow> [] | Some items \<Rightarrow> foldl objectStep64 [] items);
          savingsGoals = (case goals d user of None \<Rightarrow> [] | Some gs \<Rightarrow> gs);
          summary = Summary (toFixed2 income) (toFixed2 spent) (toFixed2 (minus64 income spent))
                      (map (\<lambda>(k, x). (k, toString64 x)) byCategory) (length savingsGoals)
      in case userFinancialData of
           Some q \<Rightarrow> (if q \<noteq> [] then Question q else summary)
         | None \<Rightarrow> summary)"

text \<open>
  The two answers of lines 186-202, and \<open>response.ok\<close>.
\<close>

definition rate_limited :: response where
  "rate_limited = \<lparr>status = 429, body = Error ''Rate limit exceeded. Please try again later.''\<rparr>"

definition payment_required :: response where
  "payment_required =
     \<lparr>status = 402, body = Error ''Payment required. Please add credits to your Lovable AI workspace.''\<rparr>"

definition ok :: "nat \<Rightarrow> bool" where
  "ok st \<longleftrightarrow> 200 \<le> st \<and> st \<le> 299"

text \<open>
  Lines 104-210, the \<open>try\<close> block: \<open>Inl\<close> is a thrown error's message, \<open>Inr\<close> a response
  returned.
\<close>

definition attempt :: "deployment \<Rightarrow> request \<Rightarrow> string + response" where
  "attempt d req =
     (case json req of
        Inl message \<Rightarrow> Inl message
      | Inr userFinancialData \<Rightarrow>
          if LOVABLE_API_KEY d = None \<or> LOVABLE_API_KEY d = Some [] then
            Inl ''LOVABLE_API_KEY is not configured''
          else
            (case authorization req of
               None \<Rightarrow> Inl ''No authorization header''
             | Some authHeader \<Rightarrow>
                 if authHeader = [] then Inl ''No authorization header''
                 else
                   (case getUser d (replace_first ''Bearer '' authHeader) of
                      None \<Rightarrow> Inl ''Unauthorized''
                    | Some user \<Rightarrow>
                        (case gateway d (userPrompt d userFinancialData user) of
                           Failed message \<Rightarrow> Inl message
                         | Reply st content \<Rightarrow>
                             if \<not> ok st then
                               (if st = 429 then Inr rate_limited
                                else if st = 402 then Inr payment_required
                                else Inl ''AI gateway error'')
                             else
                               (case content of
                                  Inl message \<Rightarrow> Inl message
                                | Inr recommendation \<Rightarrow>
                                    Inr \<lparr>status = 200, body = Recommendation recommendation\<rparr>)))))"

text \<open>Lines 99-102 and the \<open>catch\<close> of lines 212-218.\<close>

definition serve :: "deployment \<Rightarrow> request \<Rightarrow> response" where
  "serve d req =
     (if method req = ''OPTIONS'' then \<lparr>status = 200, body = NoBody\<rparr>
      else
        (case attempt d req of
           Inl message \<Rightarrow> \<lparr>status = 500, body = Error message\<rparr>
         | Inr r \<Rightarrow> r))"

section \<open>AICoach: asking for advice\<close>

text \<open>
  \<open>supabase.functions.invoke\<close> belongs to the client library, not to the repository; it
  is modelled by its contract. It posts the body with the session's access token as
  bearer. For a response whose status is outside 200-299 it returns no data and an
  error with one fixed message, whatever the response holds; otherwise it returns the
  parsed body and no error. That the function cannot be reached at all is left out.
\<close>

record invoked =
  data :: "body option"
  error :: "string option"

definition non_2xx :: string where
  "non_2xx = ''Edge Function returned a non-2xx status code''"

definition invoke :: "deployment \<Rightarrow> string \<Rightarrow> string option \<Rightarrow> invoked" where
  "invoke d token userFinancialData =
     (let r = serve d \<lparr>method = ''POST'', json = Inr userFinancialData,
                       authorization = Some (''Bearer '' @ token)\<rparr>
      in if ok (status r) then \<lparr>data = Some (body r), error = None\<rparr>
         else \<lparr>data = None, error = Some non_2xx\<rparr>)"

text \<open>
  The page's state, and \<open>getRecommendations\<close>: \<open>customQuestion || null\<close> is the body's
  \<open>userFinancialData\<close>; an \<open>error\<close> of the call is thrown before \<open>data\<close> is looked at, a
  non-empty \<open>data.error\<close> is thrown as an error of its own, and the \<open>catch\<close> shows the
  thrown error's message in a toast, or a fixed text for an empty message. A body that is
  \<open>null\<close> makes \<open>data.error\<close> itself throw (the message is V8's); the handler answers a
  POST with no such body.
\<close>

record coach =
  loading :: bool
  recommendation :: "string option"
  toasted :: "toast list"

definition orNull :: "string option \<Rightarrow> string option" where
  "orNull customQuestion =
     (case customQuestion of None \<Rightarrow> None | Some q \<Rightarrow> if q = [] then None else Some q)"

definition caught :: "string \<Rightarrow> coach \<Rightarrow> coach" where
  "caught message c =
     c\<lparr>loading := False,
       toasted := toasted c @
         [\<lparr>title = ''Error'',
           description = (if message = [] then ''Failed to get recommendations. Please try again.''
                          else message)\<rparr>]\<rparr>"

definition null_data :: string where
  "null_data = ''Cannot read properties of null (reading 'error')''"

definition getRecommendations :: "deployment \<Rightarrow> string \<Rightarrow> string option \<Rightarrow> coach \<Rightarrow> coach" where
  "getRecommendations d token customQuestion c =
     (let res = invoke d token (orNull customQuestion) in
      case error res of
        Some message \<Rightarrow> caught message c
      | None \<Rightarrow>
          (case data res of
             None \<Rightarrow> caught null_data c
           | Some NoBody \<Rightarrow> caught null_data c
           | Some (Error message) \<Rightarrow>
               if message \<noteq> [] then caught message c
               else c\<lparr>loading := False, recommendation := None,
                      toasted := toasted c @
                        [\<lparr>title = ''Success'', description = ''AI recommendations generated!''\<rparr>]\<rparr>
           | Some (Recommendation r) \<Rightarrow>
               c\<lparr>loading := False, recommendation := r,
                 toasted := toasted c @
                   [\<lparr>title = ''Success'', description = ''AI recommendations generated!''\<rparr>]\<rparr>))"

section \<open>For the statements\<close>

text \<open>
  The unit roundoff; \<open>near k x z\<close>, which says that \<open>x\<close> is \<open>z\<close> up to \<open>k\<close> roundings; the
  running sum of a list of amounts from a start value; and the total an array of entries
  holds for a category.
\<close>

definition eps64 :: rat where
  "eps64 = 1 / 2 ^ 53"

definition near :: "nat \<Rightarrow> rat \<Rightarrow> rat \<Rightarrow> bool" where
  "near k x z \<longleftrightarrow> (1 - eps64) ^ k * z \<le> x \<and> x \<le> (1 + eps64) ^ k * z"

definition sum64 :: "rat \<Rightarrow> rat list \<Rightarrow> rat" where
  "sum64 s ds = foldl (\<lambda>sum a. plus64 sum (parseFloat64 a)) s ds"

definition valueOf :: "string \<Rightarrow> slice list \<Rightarrow> rat option" where
  "valueOf c es = map_option value (find (\<lambda>e. name e = c) es)"

text \<open>
  Examples: expenses, an income, a goal of the dashboard, goals of the savings page and
  a page that has just loaded its rows, a deployment with one user, whose token is
  \<open>good\<close>, with no rows yet and a gateway that gives the same reply to every prompt, a
  request of that user, and the advice page as it opens.
\<close>

definition two_meals :: "expense_row list" where
  "two_meals = [\<lparr>amount = 1 / 10, category = ''Food''\<rparr>, \<lparr>amount = 2 / 10, category = ''Food''\<rparr>]"

definition five_rows :: "expense_row list" where
  "five_rows =
     [\<lparr>amount = 10 / 100, category = ''Food''\<rparr>, \<lparr>amount = 70 / 100, category = ''Hotels''\<rparr>,
      \<lparr>amount = 20 / 100, category = ''Food''\<rparr>, \<lparr>amount = 10 / 100, category = ''Hotels''\<rparr>,
      \<lparr>amount = 30 / 100, category = ''Food''\<rparr>]"

definition one_salary :: "income_row list" where
  "one_salary = [\<lparr>amount = 1000014 / 100, frequency = ''yearly''\<rparr>]"

definition one_goal :: "savings_row list" where
  "one_goal = [\<lparr>target_amount = 4000, current_amount = 2300\<rparr>]"

definition paris :: "rat \<Rightarrow> SavingsGoal" where
  "paris a = \<lparr>target_amount = 2000, current_amount = a, id = ''g1'',
              goal_name = ''Paris'', target_date = 7776000000\<rparr>"

definition page_of :: "SavingsGoal list \<Rightarrow> world" where
  "page_of rows = \<lparr>savings_goals = rows, savingsGoals = sort_key target_date rows, toasts = []\<rparr>"

definition short_trip :: SavingsGoal where
  "short_trip = \<lparr>target_amount = 114 / 100, current_amount = 0, id = ''g2'',
                  goal_name = ''Ferry'', target_date = 691200000\<rparr>"

definition one_user :: "reply \<Rightarrow> deployment" where
  "one_user r =
     \<lparr>LOVABLE_API_KEY = Some ''key'',
      getUser = (\<lambda>t. if t = ''good'' then Some ''u1'' else None),
      income_sources = (\<lambda>u. Some []),
      expenses = (\<lambda>u. Some []),
      goals = (\<lambda>u. Some []),
      gateway = (\<lambda>p. r)\<rparr>"

definition post :: "string \<Rightarrow> request" where
  "post t = \<lparr>method = ''POST'', json = Inr None, authorization = Some (''Bearer '' @ t)\<rparr>"

definition opened :: coach where
  "opened = \<lparr>loading = False, recommendation = Some [], toasted = []\<rparr>"

section \<open>Rounding\<close>

subsection \<open>The binade and the rounding error\<close>

lemma orZero_Some: "orZero (Some x) = x"
  by (simp add: orZero_def)

lemma floor_numeral_div: "\<lfloor>numeral a / numeral b :: rat\<rfloor> = numeral a div numeral b"
  using floor_divide_of_int_eq [of "numeral a" "numeral b", where ?'a = rat] by simp

lemma floorlog2_bounds:
  assumes "0 < p"
  shows "(2::rat) ^ (floorlog 2 (nat p) - 1) \<le> of_int p" and "of_int p < (2::rat) ^ floorlog 2 (nat p)"
    and "1 \<le> floorlog 2 (nat p)"
proof -
  from assms have pos: "0 < nat p" by simp
  from floorlog_bounds [OF pos, of 2]
  have lo: "2 ^ (floorlog 2 (nat p) - 1) \<le> nat p" and hi: "nat p < 2 ^ floorlog 2 (nat p)"
    by simp_all
  from lo have "int (2 ^ (floorlog 2 (nat p) - 1)) \<le> p"
    using assms by linarith
  then have "(of_int (int (2 ^ (floorlog 2 (nat p) - 1))) :: rat) \<le> of_int p"
    by (simp only: of_int_le_iff)
  then show "(2::rat) ^ (floorlog 2 (nat p) - 1) \<le> of_int p"
    by simp
  from hi have "p < int (2 ^ floorlog 2 (nat p))"
    using assms by linarith
  then have "(of_int p :: rat) < of_int (int (2 ^ floorlog 2 (nat p)))"
    by (simp only: of_int_less_iff)
  then show "of_int p < (2::rat) ^ floorlog 2 (nat p)"
    by simp
  from pos show "1 \<le> floorlog 2 (nat p)"
    by (simp add: floorlog_def)
qed

lemma binade_bounds:
  assumes "x \<noteq> 0"
  shows "2 powi binade x \<le> \<bar>x\<bar>" and "\<bar>x\<bar> < 2 powi (binade x + 1)"
proof -
  obtain p q where pq: "quotient_of \<bar>x\<bar> = (p, q)"
    by (cases "quotient_of \<bar>x\<bar>")
  then have q: "0 < q" and x: "\<bar>x\<bar> = of_int p / of_int q"
    by (simp_all add: quotient_of_denom_pos quotient_of_div)
  from assms have "0 < \<bar>x\<bar>" by simp
  with x q have p: "0 < p"
    by (simp add: zero_less_divide_iff)
  define a where "a = floorlog 2 (nat p)"
  define b where "b = floorlog 2 (nat q)"
  define k where "k = int a - int b"
  note pb = floorlog2_bounds [OF p, folded a_def]
  note qb = floorlog2_bounds [OF q, folded b_def]
  have k1: "(2::rat) powi (k + 1) = 2 ^ a / 2 ^ (b - 1)"
  proof -
    from qb(3) have "k + 1 = int a - int (b - 1)"
      by (simp add: k_def)
    then show ?thesis
      by (simp add: power_int_diff)
  qed
  have k0: "(2::rat) powi (k - 1) = 2 ^ (a - 1) / 2 ^ b"
  proof -
    from pb(3) have "k - 1 = int (a - 1) - int b"
      by (simp add: k_def)
    then show ?thesis
      by (simp add: power_int_diff)
  qed
  have upper: "\<bar>x\<bar> < 2 powi (k + 1)"
  proof -
    have "of_int p / of_int q < (2::rat) ^ a / of_int q"
      using pb(2) q by (simp add: divide_strict_right_mono)
    also have "\<dots> \<le> 2 ^ a / 2 ^ (b - 1)"
      using qb(1) by (simp add: frac_le)
    finally show ?thesis
      by (simp add: x k1)
  qed
  have lower: "2 powi (k - 1) \<le> \<bar>x\<bar>"
  proof -
    have "(2::rat) ^ (a - 1) / 2 ^ b \<le> of_int p / 2 ^ b"
      using pb(1) by (simp add: divide_right_mono)
    also have "\<dots> \<le> of_int p / of_int q"
      using qb(2) p q by (simp add: frac_le)
    finally show ?thesis
      by (simp add: x k0)
  qed
  have bin: "binade x = (if 2 powi k \<le> \<bar>x\<bar> then k else k - 1)"
    by (simp add: binade_def pq k_def a_def b_def Let_def)
  show "2 powi binade x \<le> \<bar>x\<bar>"
    using lower by (simp add: bin)
  show "\<bar>x\<bar> < 2 powi (binade x + 1)"
    using upper by (auto simp: bin not_le)
qed

lemma binade_unique:
  assumes "2 powi k \<le> \<bar>x\<bar>" and "\<bar>x\<bar> < 2 powi (k + 1)"
  shows "binade x = k"
proof -
  from assms(1) have "0 < \<bar>x\<bar>"
    by (rule less_le_trans [rotated]) simp
  then have nz: "x \<noteq> 0" by simp
  note b = binade_bounds [OF nz]
  have less: "i < j" if "(2::rat) powi i < 2 powi j" for i j :: int
  proof (rule ccontr)
    assume "\<not> i < j"
    then have "(2::rat) powi j \<le> 2 powi i"
      by (intro power_int_increasing) simp_all
    with that show False by simp
  qed
  have "(2::rat) powi k < 2 powi (binade x + 1)"
    using assms(1) b(2) by (rule le_less_trans)
  then have "k < binade x + 1"
    by (rule less)
  moreover have "(2::rat) powi binade x < 2 powi (k + 1)"
    using b(1) assms(2) by (rule le_less_trans)
  then have "binade x < k + 1"
    by (rule less)
  ultimately show ?thesis by simp
qed

lemma round_even_error: "\<bar>of_int (round_even q) - q\<bar> \<le> 1 / 2"
proof -
  have "of_int \<lfloor>q\<rfloor> \<le> q" and "q < of_int \<lfloor>q\<rfloor> + 1"
    by linarith+
  then show ?thesis
    by (auto simp: round_even_def Let_def abs_le_iff)
qed

lemma binary64_error: "\<bar>binary64 x - x\<bar> \<le> \<bar>x\<bar> / 2 ^ 53"
proof (cases "x = 0")
  case True
  then show ?thesis by (simp add: binary64_def)
next
  case False
  define e where "e = binade x - 52"
  define y where "y = x / 2 powi e"
  have pw: "(0::rat) < 2 powi e" by simp
  have xy: "x = y * 2 powi e"
    by (simp add: y_def)
  have "binary64 x - x = (of_int (round_even y) - y) * 2 powi e"
    using False by (simp add: binary64_def e_def [symmetric] y_def [symmetric] Let_def xy [symmetric] algebra_simps)
  then have "\<bar>binary64 x - x\<bar> = \<bar>of_int (round_even y) - y\<bar> * 2 powi e"
    by (simp add: abs_mult)
  also have "\<dots> \<le> 1 / 2 * 2 powi e"
    using round_even_error [of y] by (intro mult_right_mono) simp_all
  also have "\<dots> = 2 powi binade x / 2 ^ 53"
  proof -
    have "(2::rat) powi e = 2 powi binade x / 2 powi 52"
      unfolding e_def by (rule power_int_diff) simp
    then show ?thesis by simp
  qed
  also have "\<dots> \<le> \<bar>x\<bar> / 2 ^ 53"
    using binade_bounds(1) [OF False] by (simp add: divide_right_mono)
  finally show ?thesis .
qed

lemma binary64_abs_error: "\<bar>binary64 x - x\<bar> \<le> eps64 * \<bar>x\<bar>"
  using binary64_error [of x] by (simp add: eps64_def)

lemma binary64_zero: "binary64 0 = 0"
  by (simp add: binary64_def)

subsection \<open>Rounding a given number\<close>

lemma binary64_eval:
  assumes "2 powi k \<le> \<bar>x\<bar>" and "\<bar>x\<bar> < 2 powi (k + 1)"
  shows "binary64 x = of_int (round_even (x / 2 powi (k - 52))) * 2 powi (k - 52)"
proof -
  from assms(1) have "0 < \<bar>x\<bar>"
    by (rule less_le_trans [rotated]) simp
  then have "x \<noteq> 0" by simp
  then show ?thesis
    by (simp add: binary64_def binade_unique [OF assms] Let_def)
qed

subsection \<open>Relative error\<close>

lemma eps64_range: "0 < eps64" "eps64 \<le> 1"
  by (simp_all add: eps64_def)

lemma eps64_unit: "0 < 1 - eps64" "1 - eps64 \<le> 1" "1 \<le> 1 + eps64" "0 < 1 + eps64"
  using eps64_range by (simp_all add: eps64_def)

lemma eps64_products: "(1 - eps64) * (1 + eps64) \<le> 1" "1 \<le> (1 - eps64) * (1 + eps64) ^ 2"
  by (simp_all add: eps64_def power2_eq_square)

lemma sum64_simps:
  "sum64 s [] = s"
  "sum64 s (d # ds) = sum64 (plus64 s (parseFloat64 d)) ds"
  by (simp_all add: sum64_def)

lemma binary64_bounds:
  assumes "0 \<le> x"
  shows "(1 - eps64) * x \<le> binary64 x" and "binary64 x \<le> (1 + eps64) * x"
proof -
  from binary64_error [of x] assms have "\<bar>binary64 x - x\<bar> \<le> eps64 * x"
    by (simp add: eps64_def)
  then have "binary64 x - x \<le> eps64 * x" and "- (binary64 x - x) \<le> eps64 * x"
    by (rule abs_le_D1, rule abs_le_D2)
  then show "(1 - eps64) * x \<le> binary64 x" and "binary64 x \<le> (1 + eps64) * x"
    by (simp_all add: algebra_simps)
qed

lemma sum64_bounds:
  assumes "\<forall>a \<in> set ds. 0 \<le> a" and "0 \<le> S" and "1 \<le> j"
    and "(1 - eps64) ^ j * S \<le> s" and "s \<le> (1 + eps64) ^ j * S"
  shows "(1 - eps64) ^ (j + length ds) * (S + sum_list ds) \<le> sum64 s ds
       \<and> sum64 s ds \<le> (1 + eps64) ^ (j + length ds) * (S + sum_list ds)"
  using assms
proof (induction ds arbitrary: s S j)
  case Nil
  then show ?case by (simp add: sum64_simps)
next
  case (Cons d ds)
  define L where "L = 1 - eps64"
  define U where "U = 1 + eps64"
  have L: "0 \<le> L" "L \<le> 1" and U: "1 \<le> U"
    using eps64_range by (simp_all add: L_def U_def)
  from Cons.prems have d: "0 \<le> d" and rest: "\<forall>a \<in> set ds. 0 \<le> a"
    by simp_all
  define p where "p = parseFloat64 d"
  from binary64_bounds [OF d] have p: "L * d \<le> p" "p \<le> U * d"
    by (simp_all add: p_def parseFloat64_def L_def U_def)
  from Cons.prems(3) obtain i where j: "j = Suc i"
    by (cases j) simp_all
  have "L ^ j \<le> L"
    using L by (simp add: j mult_left_le power_le_one)
  then have "L ^ j * d \<le> L * d"
    using d by (rule mult_right_mono)
  with p(1) Cons.prems(4) have lo: "L ^ j * (S + d) \<le> s + p"
    by (simp add: algebra_simps L_def)
  have "U \<le> U ^ j"
    using U by (simp add: j mult_le_cancel_left1)
  then have "U * d \<le> U ^ j * d"
    using d by (rule mult_right_mono)
  with p(2) Cons.prems(5) have hi: "s + p \<le> U ^ j * (S + d)"
    by (simp add: algebra_simps U_def)
  have nonneg: "0 \<le> s + p"
  proof -
    have "0 \<le> L ^ j * (S + d)"
      using L d Cons.prems(2) by simp
    with lo show ?thesis by simp
  qed
  define t where "t = plus64 s p"
  from binary64_bounds [OF nonneg] have t: "L * (s + p) \<le> t" "t \<le> U * (s + p)"
    by (simp_all add: t_def plus64_def L_def U_def)
  have lo': "(1 - eps64) ^ Suc j * (S + d) \<le> t"
  proof -
    have "L * (L ^ j * (S + d)) \<le> L * (s + p)"
      using lo L(1) by (rule mult_left_mono)
    with t(1) show ?thesis by (simp add: mult.assoc L_def)
  qed
  have hi': "t \<le> (1 + eps64) ^ Suc j * (S + d)"
  proof -
    have "U * (s + p) \<le> U * (U ^ j * (S + d))"
      using hi U by (intro mult_left_mono) simp_all
    with t(2) show ?thesis by (simp add: mult.assoc U_def)
  qed
  from Cons.prems(2) d have S': "0 \<le> S + d" by simp
  have j': "1 \<le> Suc j" by simp
  from Cons.IH [OF rest S' j' lo' hi']
  have "(1 - eps64) ^ (Suc j + length ds) * (S + d + sum_list ds) \<le> sum64 t ds
      \<and> sum64 t ds \<le> (1 + eps64) ^ (Suc j + length ds) * (S + d + sum_list ds)" .
  then show ?case
    by (simp add: sum64_simps t_def p_def add.assoc)
qed

lemma power_one_plus_le:
  fixes v :: rat
  assumes "0 \<le> v" and "2 * of_nat m * v \<le> 1"
  shows "(1 + v) ^ m \<le> 1 + 2 * of_nat m * v"
  using assms(2)
proof (induction m)
  case 0
  show ?case by simp
next
  case (Suc m)
  have mv: "2 * of_nat m * v \<le> 1"
  proof -
    have "2 * of_nat m * v \<le> 2 * of_nat (Suc m) * v"
      using assms(1) by (intro mult_right_mono) simp_all
    with Suc.prems show ?thesis by simp
  qed
  have "(1 + v) ^ Suc m = (1 + v) * (1 + v) ^ m"
    by simp
  also have "\<dots> \<le> (1 + v) * (1 + 2 * of_nat m * v)"
    using Suc.IH [OF mv] assms(1) by (intro mult_left_mono) simp_all
  also have "\<dots> = 1 + 2 * of_nat m * v + v + (2 * of_nat m * v) * v"
    by (simp add: algebra_simps)
  also have "\<dots> \<le> 1 + 2 * of_nat m * v + v + 1 * v"
    using mv assms(1) by (intro add_left_mono mult_right_mono)
  also have "\<dots> = 1 + 2 * of_nat (Suc m) * v"
    by (simp add: algebra_simps)
  finally show ?case .
qed

lemma power_one_minus_ge:
  fixes v :: rat
  assumes "0 \<le> v" and "v \<le> 1"
  shows "1 - of_nat m * v \<le> (1 - v) ^ m"
proof (induction m)
  case 0
  show ?case by simp
next
  case (Suc m)
  have "1 - of_nat (Suc m) * v \<le> (1 - v) * (1 - of_nat m * v)"
  proof -
    have "0 \<le> of_nat m * v * v"
      using assms(1) by simp
    then show ?thesis by (simp add: algebra_simps)
  qed
  also have "\<dots> \<le> (1 - v) * (1 - v) ^ m"
    using Suc.IH assms(2) by (intro mult_left_mono) simp_all
  finally show ?case by simp
qed

lemma within_relative:
  fixes s T :: rat
  assumes "0 \<le> T" and "2 * of_nat m * eps64 \<le> 1"
    and "(1 - eps64) ^ m * T \<le> s" and "s \<le> (1 + eps64) ^ m * T"
  shows "\<bar>s - T\<bar> \<le> 2 * of_nat m * eps64 * T"
proof -
  have "(1 + eps64) ^ m \<le> 1 + 2 * of_nat m * eps64"
    using assms(2) eps64_range by (intro power_one_plus_le) simp_all
  then have "(1 + eps64) ^ m * T \<le> (1 + 2 * of_nat m * eps64) * T"
    using assms(1) by (rule mult_right_mono)
  with assms(4) have hi: "s - T \<le> 2 * of_nat m * eps64 * T"
    by (simp add: algebra_simps)
  have "1 - of_nat m * eps64 \<le> (1 - eps64) ^ m"
    using eps64_range by (intro power_one_minus_ge) simp_all
  then have "(1 - of_nat m * eps64) * T \<le> (1 - eps64) ^ m * T"
    using assms(1) by (rule mult_right_mono)
  with assms(3) have "T - s \<le> of_nat m * eps64 * T"
    by (simp add: algebra_simps)
  also have "\<dots> \<le> 2 * of_nat m * eps64 * T"
    using assms(1) eps64_range by (intro mult_right_mono) simp_all
  finally have lo: "- (s - T) \<le> 2 * of_nat m * eps64 * T"
    by simp
  from hi lo show ?thesis
    by (rule abs_leI)
qed

lemma near_nonneg: "0 \<le> z \<Longrightarrow> near k x z \<Longrightarrow> 0 \<le> x"
proof -
  assume z: "0 \<le> z" and w: "near k x z"
  have "0 \<le> (1 - eps64) ^ k * z"
    using z eps64_unit(1) by (intro mult_nonneg_nonneg zero_le_power) simp_all
  with w show ?thesis
    by (simp add: near_def)
qed

lemma near_pos: "0 < z \<Longrightarrow> near k x z \<Longrightarrow> 0 < x"
proof -
  assume z: "0 < z" and w: "near k x z"
  have "0 < (1 - eps64) ^ k * z"
    using z eps64_unit(1) by (intro mult_pos_pos zero_less_power)
  with w show ?thesis
    by (simp add: near_def)
qed

lemma near_zero: "near k x 0 \<Longrightarrow> x = 0"
  by (simp add: near_def)

lemma near_refl: "near 0 z z"
  by (simp add: near_def)

lemma near_round:
  assumes "0 \<le> z" and "near k x z"
  shows "near (Suc k) (binary64 x) z"
proof -
  from assms have x: "0 \<le> x"
    by (rule near_nonneg)
  from assms(2) have lo: "(1 - eps64) ^ k * z \<le> x" and hi: "x \<le> (1 + eps64) ^ k * z"
    by (simp_all add: near_def)
  have "(1 - eps64) * ((1 - eps64) ^ k * z) \<le> (1 - eps64) * x"
    using lo eps64_unit(1) by (intro mult_left_mono) simp_all
  also have "\<dots> \<le> binary64 x"
    by (rule binary64_bounds(1) [OF x])
  finally have a: "(1 - eps64) ^ Suc k * z \<le> binary64 x"
    by (simp add: mult.assoc)
  have "binary64 x \<le> (1 + eps64) * x"
    by (rule binary64_bounds(2) [OF x])
  also have "\<dots> \<le> (1 + eps64) * ((1 + eps64) ^ k * z)"
    using hi eps64_unit(4) by (intro mult_left_mono) simp_all
  finally have b: "binary64 x \<le> (1 + eps64) ^ Suc k * z"
    by (simp add: mult.assoc)
  from a b show ?thesis
    by (simp only: near_def)
qed

lemma near_mono:
  assumes "k \<le> j" and "0 \<le> z" and "near k x z"
  shows "near j x z"
proof -
  from assms(3) have lo: "(1 - eps64) ^ k * z \<le> x" and hi: "x \<le> (1 + eps64) ^ k * z"
    by (simp_all add: near_def)
  have "(1 - eps64) ^ j \<le> (1 - eps64) ^ k"
    using assms(1) eps64_unit(1,2) by (intro power_decreasing) simp_all
  then have "(1 - eps64) ^ j * z \<le> (1 - eps64) ^ k * z"
    using assms(2) by (rule mult_right_mono)
  with lo have a: "(1 - eps64) ^ j * z \<le> x"
    by simp
  have "(1 + eps64) ^ k \<le> (1 + eps64) ^ j"
    using assms(1) eps64_unit(3) by (intro power_increasing)
  then have "(1 + eps64) ^ k * z \<le> (1 + eps64) ^ j * z"
    using assms(2) by (rule mult_right_mono)
  with hi have b: "x \<le> (1 + eps64) ^ j * z"
    by simp
  from a b show ?thesis
    by (simp only: near_def)
qed

lemma near_add:
  assumes "near j s S" and "near j p d"
  shows "near j (s + p) (S + d)"
  using assms by (simp add: near_def distrib_left add_mono)

lemma near_scale:
  assumes "0 \<le> c" and "near k x z"
  shows "near k (x * c) (z * c)"
proof -
  from assms(2) have lo: "(1 - eps64) ^ k * z \<le> x" and hi: "x \<le> (1 + eps64) ^ k * z"
    by (simp_all add: near_def)
  from lo assms(1) have "(1 - eps64) ^ k * z * c \<le> x * c"
    by (rule mult_right_mono)
  moreover from hi assms(1) have "x * c \<le> (1 + eps64) ^ k * z * c"
    by (rule mult_right_mono)
  ultimately show ?thesis
    by (simp add: near_def mult.assoc)
qed

lemma near_parse: "0 \<le> d \<Longrightarrow> near 1 (parseFloat64 d) d"
  unfolding parseFloat64_def
  using near_round [of d 0 d] by (simp add: near_refl)

lemma near_plus64:
  assumes "0 \<le> S" and "0 \<le> d" and "near j s S" and "near j p d"
  shows "near (Suc j) (plus64 s p) (S + d)"
  unfolding plus64_def
  using assms by (intro near_round near_add) simp_all

lemma near_abs:
  assumes "0 \<le> z" and "2 * of_nat m * eps64 \<le> 1" and "near m x z"
  shows "\<bar>x - z\<bar> \<le> 2 * of_nat m * eps64 * z"
  using assms(1,2) assms(3) [unfolded near_def]
  by (intro within_relative) simp_all

lemma near_quot:
  assumes "0 \<le> z" and "0 < w" and "near k x z" and "near k' y w"
  shows "near (k + 2 * k') (x / y) (z / w)"
proof -
  define L where "L = 1 - eps64"
  define U where "U = 1 + eps64"
  define r where "r = z / w"
  have L: "0 < L" "L \<le> 1" and U: "1 \<le> U" "0 < U"
    using eps64_unit by (simp_all add: L_def U_def)
  have LU1: "L * U \<le> 1" and LUU: "1 \<le> L * U ^ 2"
    using eps64_products by (simp_all add: L_def U_def)
  from assms(3) have xlo: "L ^ k * z \<le> x" and xhi: "x \<le> U ^ k * z"
    by (simp_all add: near_def L_def U_def)
  from assms(4) have ylo: "L ^ k' * w \<le> y" and yhi: "y \<le> U ^ k' * w"
    by (simp_all add: near_def L_def U_def)
  from assms(2,4) have y: "0 < y"
    by (rule near_pos)
  have r: "0 \<le> r" and z: "z = r * w"
    using assms(1,2) by (simp_all add: r_def)
  have hi: "x \<le> U ^ (k + 2 * k') * r * y"
  proof -
    have one: "1 \<le> (L * U ^ 2) ^ k'"
      using LUU by (rule one_le_power)
    have "x \<le> U ^ k * z * 1"
      using xhi by simp
    also have "\<dots> \<le> U ^ k * z * (L * U ^ 2) ^ k'"
      using one assms(1) U(2) by (intro mult_left_mono mult_nonneg_nonneg zero_le_power) simp_all
    also have "\<dots> = U ^ (k + 2 * k') * r * (L ^ k' * w)"
    proof -
      define V where "V = (U ^ 2) ^ k'"
      have "U ^ (k + 2 * k') = U ^ k * V" and "(L * U ^ 2) ^ k' = L ^ k' * V"
        by (simp_all only: V_def power_add power_mult power_mult_distrib)
      then show ?thesis
        by (simp only: z ac_simps)
    qed
    also have "\<dots> \<le> U ^ (k + 2 * k') * r * y"
      using ylo r U(2) by (intro mult_left_mono mult_nonneg_nonneg zero_le_power) simp_all
    finally show ?thesis .
  qed
  have lo: "L ^ (k + 2 * k') * r * y \<le> x"
  proof -
    have "L ^ 2 * U = L * (L * U)"
      by (simp add: power2_eq_square)
    also have "\<dots> \<le> L * 1"
      using LU1 L(1) by (intro mult_left_mono) simp_all
    also have "\<dots> \<le> 1"
      using L(2) by simp
    finally have "L ^ 2 * U \<le> 1" .
    moreover have "0 \<le> L ^ 2 * U"
      using L(1) U(2) by simp
    ultimately have one: "(L ^ 2 * U) ^ k' \<le> 1"
      by (intro power_le_one)
    have "L ^ (k + 2 * k') * r * y \<le> L ^ (k + 2 * k') * r * (U ^ k' * w)"
      using yhi r L(1) by (intro mult_left_mono mult_nonneg_nonneg zero_le_power) simp_all
    also have "\<dots> = L ^ k * z * (L ^ 2 * U) ^ k'"
    proof -
      define V where "V = (L ^ 2) ^ k'"
      have "L ^ (k + 2 * k') = L ^ k * V" and "(L ^ 2 * U) ^ k' = V * U ^ k'"
        by (simp_all only: V_def power_add power_mult power_mult_distrib)
      then show ?thesis
        by (simp only: z ac_simps)
    qed
    also have "\<dots> \<le> L ^ k * z * 1"
      using one assms(1) L(1) by (intro mult_left_mono mult_nonneg_nonneg zero_le_power) simp_all
    also have "\<dots> \<le> x"
      using xlo by simp
    finally show ?thesis .
  qed
  from lo y have "L ^ (k + 2 * k') * r \<le> x / y"
    by (simp add: pos_le_divide_eq)
  moreover from hi y have "x / y \<le> U ^ (k + 2 * k') * r"
    by (simp add: pos_divide_le_eq)
  ultimately show ?thesis
    by (simp add: near_def L_def U_def r_def)
qed

lemma sum64_near:
  assumes "\<forall>a \<in> set ds. 0 \<le> a"
  shows "near (Suc (length ds)) (sum64 0 ds) (sum_list ds)"
proof -
  have "(1 - eps64) ^ (1 + length ds) * (0 + sum_list ds) \<le> sum64 0 ds
      \<and> sum64 0 ds \<le> (1 + eps64) ^ (1 + length ds) * (0 + sum_list ds)"
    using assms by (intro sum64_bounds) simp_all
  then show ?thesis
    by (simp add: near_def)
qed

subsection \<open>Half a cent\<close>

lemma sum64_from_zero:
  assumes "\<forall>a \<in> set ds. 0 \<le> a" and "2 * of_nat (Suc (length ds)) * eps64 \<le> 1"
  shows "\<bar>sum64 0 ds - sum_list ds\<bar> \<le> 2 * of_nat (Suc (length ds)) * eps64 * sum_list ds"
    and "0 \<le> sum64 0 ds"
proof -
  have T: "0 \<le> sum_list ds"
    using assms(1) by (simp add: sum_list_nonneg)
  have "(1 - eps64) ^ (1 + length ds) * (0 + sum_list ds) \<le> sum64 0 ds
      \<and> sum64 0 ds \<le> (1 + eps64) ^ (1 + length ds) * (0 + sum_list ds)"
    using assms(1) by (intro sum64_bounds) simp_all
  then have b: "(1 - eps64) ^ Suc (length ds) * sum_list ds \<le> sum64 0 ds"
    "sum64 0 ds \<le> (1 + eps64) ^ Suc (length ds) * sum_list ds"
    by simp_all
  from T assms(2) b show "\<bar>sum64 0 ds - sum_list ds\<bar> \<le> 2 * of_nat (Suc (length ds)) * eps64 * sum_list ds"
    by (rule within_relative)
  have "0 \<le> (1 - eps64) ^ Suc (length ds) * sum_list ds"
    using T eps64_range by (intro mult_nonneg_nonneg zero_le_power) simp_all
  with b(1) show "0 \<le> sum64 0 ds"
    by simp
qed

lemma sum64_from_first:
  assumes "0 \<le> d" and "\<forall>a \<in> set ds. 0 \<le> a" and "2 * of_nat (Suc (length ds)) * eps64 \<le> 1"
  shows "\<bar>sum64 (parseFloat64 d) ds - (d + sum_list ds)\<bar>
           \<le> 2 * of_nat (Suc (length ds)) * eps64 * (d + sum_list ds)"
    and "0 \<le> sum64 (parseFloat64 d) ds"
proof -
  have T: "0 \<le> d + sum_list ds"
    using assms(1,2) by (simp add: sum_list_nonneg)
  from binary64_bounds [OF assms(1)]
  have "(1 - eps64) ^ 1 * d \<le> parseFloat64 d" and "parseFloat64 d \<le> (1 + eps64) ^ 1 * d"
    by (simp_all add: parseFloat64_def)
  with assms(1,2)
  have "(1 - eps64) ^ (1 + length ds) * (d + sum_list ds) \<le> sum64 (parseFloat64 d) ds
      \<and> sum64 (parseFloat64 d) ds \<le> (1 + eps64) ^ (1 + length ds) * (d + sum_list ds)"
    by (intro sum64_bounds) simp_all
  then have b: "(1 - eps64) ^ Suc (length ds) * (d + sum_list ds) \<le> sum64 (parseFloat64 d) ds"
    "sum64 (parseFloat64 d) ds \<le> (1 + eps64) ^ Suc (length ds) * (d + sum_list ds)"
    by simp_all
  from T assms(3) b
  show "\<bar>sum64 (parseFloat64 d) ds - (d + sum_list ds)\<bar>
      \<le> 2 * of_nat (Suc (length ds)) * eps64 * (d + sum_list ds)"
    by (rule within_relative)
  have "0 \<le> (1 - eps64) ^ Suc (length ds) * (d + sum_list ds)"
    using T eps64_range by (intro mult_nonneg_nonneg zero_le_power) simp_all
  with b(1) show "0 \<le> sum64 (parseFloat64 d) ds"
    by simp
qed

lemma sum_list_below:
  fixes ds :: "rat list"
  assumes "\<forall>a \<in> set ds. a < B"
  shows "sum_list ds \<le> of_nat (length ds) * B"
  using assms
proof (induction ds)
  case Nil
  show ?case by simp
next
  case (Cons d ds)
  then have "d \<le> B" and "sum_list ds \<le> of_nat (length ds) * B"
    by simp_all
  then show ?case
    by (simp add: algebra_simps)
qed

lemma below_half_cent:
  fixes s T :: rat
  assumes "0 \<le> T" and "T \<le> 400 * 10 ^ 8" and "m \<le> 401"
    and "\<bar>s - T\<bar> \<le> 2 * of_nat m * eps64 * T"
  shows "\<bar>s - T\<bar> < 1 / 200"
proof -
  from assms(3) have m: "(of_nat m :: rat) \<le> 401"
    using of_nat_le_iff [of m 401, where ?'a = rat] by simp
  have le: "2 * of_nat m * eps64 \<le> 2 * 401 * eps64"
    using m eps64_range by (intro mult_right_mono mult_left_mono) simp_all
  have nonneg: "0 \<le> 2 * 401 * eps64"
    using eps64_range by simp
  have "2 * of_nat m * eps64 * T \<le> 2 * 401 * eps64 * (400 * 10 ^ 8)"
    by (rule mult_mono [OF le assms(2) nonneg assms(1)])
  also have "\<dots> < 1 / 200"
    by (simp add: eps64_def)
  finally show ?thesis
    using assms(4) by simp
qed

lemma few_rows_small:
  assumes "n \<le> 401"
  shows "2 * of_nat n * eps64 \<le> 1"
proof -
  from assms have "(of_nat n :: rat) \<le> 401"
    using of_nat_le_iff [of n 401, where ?'a = rat] by simp
  then have "2 * of_nat n * eps64 \<le> 2 * 401 * eps64"
    using eps64_range by (intro mult_right_mono mult_left_mono) simp_all
  also have "\<dots> \<le> 1"
    by (simp add: eps64_def)
  finally show ?thesis .
qed

lemma below_half_cent_wide:
  fixes s T :: rat
  assumes "0 \<le> T" and "T \<le> 400 * 10 ^ 8" and "m \<le> 402"
    and "\<bar>s - T\<bar> \<le> 2 * of_nat m * eps64 * T"
  shows "\<bar>s - T\<bar> < 1 / 200"
proof -
  from assms(3) have m: "(of_nat m :: rat) \<le> 402"
    using of_nat_le_iff [of m 402, where ?'a = rat] by simp
  have le: "2 * of_nat m * eps64 \<le> 2 * 402 * eps64"
    using m eps64_range by (intro mult_right_mono mult_left_mono) simp_all
  have nonneg: "0 \<le> 2 * 402 * eps64"
    using eps64_range by simp
  have "2 * of_nat m * eps64 * T \<le> 2 * 402 * eps64 * (400 * 10 ^ 8)"
    by (rule mult_mono [OF le assms(2) nonneg assms(1)])
  also have "\<dots> < 1 / 200"
    by (simp add: eps64_def)
  finally show ?thesis
    using assms(4) by simp
qed

lemma few_rows_small_wide:
  assumes "n \<le> 3005"
  shows "2 * of_nat n * eps64 \<le> 1" and "2 * of_nat n * eps64 \<le> 1 / 10 ^ 12"
proof -
  from assms have "(of_nat n :: rat) \<le> 3005"
    using of_nat_le_iff [of n 3005, where ?'a = rat] by simp
  then have le: "2 * of_nat n * eps64 \<le> 2 * 3005 * eps64"
    using eps64_range by (intro mult_right_mono mult_left_mono) simp_all
  also have "\<dots> \<le> 1 / 10 ^ 12"
    by (simp add: eps64_def)
  finally show "2 * of_nat n * eps64 \<le> 1 / 10 ^ 12" .
  then show "2 * of_nat n * eps64 \<le> 1"
    by simp
qed

lemma toFixed2_exact:
  assumes "\<bar>s - T\<bar> < 1 / 200" and "100 * T \<in> \<int>" and "0 \<le> s"
  shows "toFixed2 s = T"
proof -
  from assms(2) obtain z where z: "100 * T = of_int z"
    by (auto elim: Ints_cases)
  from assms(1) have "s - T < 1 / 200" and "- (s - T) < 1 / 200"
    by linarith+
  then have "100 * T \<le> 100 * s + 1 / 2" and "100 * s + 1 / 2 < 100 * T + 1"
    by linarith+
  then have "of_int z \<le> 100 * s + 1 / 2" and "100 * s + 1 / 2 < of_int z + 1"
    unfolding z by simp_all
  then have "\<lfloor>100 * s + 1 / 2\<rfloor> = z"
    by (rule floor_unique)
  with assms(3) z show ?thesis
    by (simp add: toFixed2_def)
qed

lemma cents_sum_list:
  fixes ds :: "rat list"
  assumes "\<forall>a \<in> set ds. 100 * a \<in> \<int>"
  shows "100 * sum_list ds \<in> \<int>"
  using assms by (induction ds) (simp_all add: distrib_left)

section \<open>The income of a month\<close>

lemma incomeStep64_apply:
  "incomeStep64 s x =
     (if frequency x = ''yearly'' then plus64 s (divide64 (parseFloat64 (amount x)) 12)
      else if frequency x = ''monthly'' then plus64 s (parseFloat64 (amount x))
      else s)"
  by (simp add: incomeStep64_def)

lemma foldl_incomeStep64_near:
  assumes "\<forall>i \<in> set xs. 0 \<le> amount i" and "0 \<le> S" and "2 \<le> j" and "near j s S"
  shows "near (j + length xs) (foldl incomeStep64 s xs)
     (S + sum_list (map amount (filter (\<lambda>i. frequency i = ''monthly'') xs))
        + sum_list (map amount (filter (\<lambda>i. frequency i = ''yearly'') xs)) / 12)"
  using assms
proof (induction xs arbitrary: s S j)
  case Nil
  then show ?case by simp
next
  case (Cons x xs)
  from Cons.prems have a: "0 \<le> amount x" and rest: "\<forall>i \<in> set xs. 0 \<le> amount i"
    by simp_all
  have j': "2 \<le> Suc j"
    using Cons.prems(3) by simp
  have fold: "foldl incomeStep64 s (x # xs) = foldl incomeStep64 (incomeStep64 s x) xs"
    by simp
  consider (yearly) "frequency x = ''yearly''"
    | (monthly) "frequency x \<noteq> ''yearly''" "frequency x = ''monthly''"
    | (other) "frequency x \<noteq> ''yearly''" "frequency x \<noteq> ''monthly''"
    by blast
  then show ?case
  proof cases
    case yearly
    have "near 1 (parseFloat64 (amount x)) (amount x)"
      using a by (rule near_parse)
    then have "near 1 (parseFloat64 (amount x) * (1 / 12)) (amount x * (1 / 12))"
      by (intro near_scale) simp_all
    then have "near 1 (parseFloat64 (amount x) / 12) (amount x / 12)"
      by simp
    then have "near (Suc 1) (divide64 (parseFloat64 (amount x)) 12) (amount x / 12)"
      unfolding divide64_def using a by (intro near_round) simp_all
    then have "near j (divide64 (parseFloat64 (amount x)) 12) (amount x / 12)"
      using Cons.prems(3) a by (intro near_mono [of "Suc 1" j]) simp_all
    with Cons.prems(2,4) a
    have "near (Suc j) (plus64 s (divide64 (parseFloat64 (amount x)) 12)) (S + amount x / 12)"
      by (intro near_plus64) simp_all
    then have step: "near (Suc j) (incomeStep64 s x) (S + amount x / 12)"
      using yearly by (simp add: incomeStep64_apply)
    have S': "0 \<le> S + amount x / 12"
      using Cons.prems(2) a by simp
    from Cons.IH [OF rest S' j' step] yearly show ?thesis
      unfolding fold by (simp add: add_divide_distrib algebra_simps)
  next
    case monthly
    have "near 1 (parseFloat64 (amount x)) (amount x)"
      using a by (rule near_parse)
    then have "near j (parseFloat64 (amount x)) (amount x)"
      using Cons.prems(3) a by (intro near_mono [of 1 j]) simp_all
    with Cons.prems(2,4) a
    have "near (Suc j) (plus64 s (parseFloat64 (amount x))) (S + amount x)"
      by (intro near_plus64) simp_all
    then have step: "near (Suc j) (incomeStep64 s x) (S + amount x)"
      using monthly by (simp add: incomeStep64_apply)
    have S': "0 \<le> S + amount x"
      using Cons.prems(2) a by simp
    from Cons.IH [OF rest S' j' step] monthly show ?thesis
      unfolding fold by (simp add: algebra_simps)
  next
    case other
    have "near (Suc j) s S"
      using Cons.prems(2,4) by (intro near_mono [of j "Suc j"]) simp_all
    then have step: "near (Suc j) (incomeStep64 s x) S"
      using other by (simp add: incomeStep64_apply)
    from Cons.IH [OF rest Cons.prems(2) j' step] other show ?thesis
      unfolding fold by simp
  qed
qed

lemma foldl_incomeStep64_skip:
  "foldl incomeStep64 a (filter (\<lambda>i. frequency i \<noteq> ''one-time'') xs) = foldl incomeStep64 a xs"
proof (induction xs arbitrary: a)
  case Nil
  show ?case by simp
next
  case (Cons x xs)
  show ?case
  proof (cases "frequency x = ''one-time''")
    case True
    then have "incomeStep64 a x = a"
      by (simp add: incomeStep64_apply)
    with True show ?thesis
      using Cons.IH [of a] by simp
  next
    case False
    then show ?thesis
      using Cons.IH [of "incomeStep64 a x"] by simp
  qed
qed

lemma income_exact_below:
  fixes xs :: "income_row list"
  assumes "\<forall>i \<in> set xs. 0 \<le> amount i \<and> amount i < B"
  shows "0 \<le> sum_list (map amount (filter (\<lambda>i. frequency i = ''monthly'') xs))
             + sum_list (map amount (filter (\<lambda>i. frequency i = ''yearly'') xs)) / 12
       \<and> sum_list (map amount (filter (\<lambda>i. frequency i = ''monthly'') xs))
           + sum_list (map amount (filter (\<lambda>i. frequency i = ''yearly'') xs)) / 12
         \<le> of_nat (length xs) * B"
  using assms
proof (induction xs)
  case Nil
  show ?case by simp
next
  case (Cons x xs)
  from Cons.prems have x: "0 \<le> amount x" "amount x < B"
    by auto
  from x have x12: "0 \<le> amount x / 12" "amount x / 12 \<le> B" "amount x \<le> B" "0 \<le> B"
    by linarith+
  from Cons have ih: "0 \<le> sum_list (map amount (filter (\<lambda>i. frequency i = ''monthly'') xs))
             + sum_list (map amount (filter (\<lambda>i. frequency i = ''yearly'') xs)) / 12"
    "sum_list (map amount (filter (\<lambda>i. frequency i = ''monthly'') xs))
           + sum_list (map amount (filter (\<lambda>i. frequency i = ''yearly'') xs)) / 12
         \<le> of_nat (length xs) * B"
    by simp_all
  show ?case
    using ih x x12 by (auto simp: add_divide_distrib algebra_simps)
qed

lemma b64_10000_14: "binary64 (500007 / 50) = 687204388086743 / 68719476736"
  by (subst binary64_eval [of "13"]) (simp_all add: round_even_def Let_def floor_numeral_div)

lemma b64_10000_14_div12: "binary64 (687204388086743 / 824633720832) = 7330180139591925 / 8796093022208"
  by (subst binary64_eval [of "9"]) (simp_all add: round_even_def Let_def floor_numeral_div)

lemma b64_833_345: "binary64 (7330180139591925 / 8796093022208) = 7330180139591925 / 8796093022208"
  by (subst binary64_eval [of "9"]) (simp_all add: round_even_def Let_def floor_numeral_div)

text \<open>
  C1, as stated, fails: the total is a binary64 sum and the twelfth a binary64 quotient.
  For one yearly income of 10000.14 the exact twelfth is 833.345, while the computed
  total is 7330180139591925 / 2^43, a little below it: the dashboard prints 833.34 where
  the exact value prints 833.35.
\<close>

theorem totalIncome64_not_exact:
  "totalIncome64 (Some one_salary) = 7330180139591925 / 8796093022208
   \<and> sum_list (map amount (filter (\<lambda>i. frequency i = ''monthly'') one_salary))
       + sum_list (map amount (filter (\<lambda>i. frequency i = ''yearly'') one_salary)) / 12
       = 166669 / 200
   \<and> totalIncome64 (Some one_salary)
       \<noteq> sum_list (map amount (filter (\<lambda>i. frequency i = ''monthly'') one_salary))
         + sum_list (map amount (filter (\<lambda>i. frequency i = ''yearly'') one_salary)) / 12
   \<and> toFixed2 (totalIncome64 (Some one_salary)) = 83334 / 100
   \<and> toFixed2 (166669 / 200) = 83335 / 100"
proof -
  have total: "totalIncome64 (Some one_salary) = 7330180139591925 / 8796093022208"
    by (simp add: totalIncome64_def orZero_def one_salary_def incomeStep64_apply plus64_def
        divide64_def parseFloat64_def b64_10000_14 b64_10000_14_div12 b64_833_345)
  have exact: "sum_list (map amount (filter (\<lambda>i. frequency i = ''monthly'') one_salary))
       + sum_list (map amount (filter (\<lambda>i. frequency i = ''yearly'') one_salary)) / 12
       = 166669 / 200"
    by (simp add: one_salary_def)
  show ?thesis
    unfolding total exact by (simp add: toFixed2_def floor_numeral_div)
qed

text \<open>
  C1, amended. For every list of at most 400 income records with amounts from 0 to below
  10^8 (the column's range), the computed monthly total differs from the sum of the
  monthly amounts plus a twelfth of the sum of the yearly amounts by less than half a
  cent. Records tagged one-time contribute nothing: the total is the same without them
  and with one more of them. The empty list yields 0.
\<close>

theorem totalIncome64_normalized:
  assumes "\<forall>i \<in> set xs. 0 \<le> amount i \<and> amount i < 10 ^ 8" and "length xs \<le> 400"
  shows "\<bar>totalIncome64 (Some xs)
           - (sum_list (map amount (filter (\<lambda>i. frequency i = ''monthly'') xs))
              + sum_list (map amount (filter (\<lambda>i. frequency i = ''yearly'') xs)) / 12)\<bar> < 1 / 200
       \<and> totalIncome64 (Some (filter (\<lambda>i. frequency i \<noteq> ''one-time'') xs)) = totalIncome64 (Some xs)
       \<and> totalIncome64 (Some (xs @ [\<lparr>amount = a, frequency = ''one-time''\<rparr>])) = totalIncome64 (Some xs)
       \<and> totalIncome64 (Some []) = 0"
proof -
  define T where "T = sum_list (map amount (filter (\<lambda>i. frequency i = ''monthly'') xs))
              + sum_list (map amount (filter (\<lambda>i. frequency i = ''yearly'') xs)) / 12"
  have nonneg: "\<forall>i \<in> set xs. 0 \<le> amount i"
    using assms(1) by simp
  have "near 2 0 0"
    by (simp add: near_def)
  with nonneg have "near (2 + length xs) (foldl incomeStep64 0 xs) (0 + sum_list (map amount (filter (\<lambda>i. frequency i = ''monthly'') xs))
        + sum_list (map amount (filter (\<lambda>i. frequency i = ''yearly'') xs)) / 12)"
    by (intro foldl_incomeStep64_near) simp_all
  then have near: "near (2 + length xs) (totalIncome64 (Some xs)) T"
    by (simp add: totalIncome64_def orZero_Some T_def)
  from income_exact_below [OF assms(1)] have T0: "0 \<le> T"
    and T2: "T \<le> of_nat (length xs) * 10 ^ 8"
    by (simp_all add: T_def)
  note T2
  also have "of_nat (length xs) * (10 ^ 8 :: rat) \<le> 400 * 10 ^ 8"
    using assms(2) of_nat_le_iff [of "length xs" 400, where ?'a = rat]
    by (intro mult_right_mono) simp_all
  finally have T1: "T \<le> 400 * 10 ^ 8" .
  have m: "2 + length xs \<le> 402"
    using assms(2) by simp
  then have "2 + length xs \<le> 3005"
    by simp
  from T0 few_rows_small_wide(1) [OF this] near
  have "\<bar>totalIncome64 (Some xs) - T\<bar> \<le> 2 * of_nat (2 + length xs) * eps64 * T"
    by (rule near_abs)
  with T0 T1 m have "\<bar>totalIncome64 (Some xs) - T\<bar> < 1 / 200"
    by (rule below_half_cent_wide)
  moreover have "totalIncome64 (Some (filter (\<lambda>i. frequency i \<noteq> ''one-time'') xs)) = totalIncome64 (Some xs)"
    by (simp add: totalIncome64_def orZero_Some foldl_incomeStep64_skip)
  moreover have "totalIncome64 (Some (xs @ [\<lparr>amount = a, frequency = ''one-time''\<rparr>])) = totalIncome64 (Some xs)"
    by (simp add: totalIncome64_def orZero_Some incomeStep64_apply)
  moreover have "totalIncome64 (Some []) = 0"
    by (simp add: totalIncome64_def orZero_Some)
  ultimately show ?thesis
    unfolding T_def by blast
qed

theorem totalIncome64_normalized_witness:
  "\<bar>totalIncome64 (Some one_salary) - 166669 / 200\<bar> < 1 / 200
   \<and> totalIncome64 (Some (one_salary @ [\<lparr>amount = 5000, frequency = ''one-time''\<rparr>]))
       = totalIncome64 (Some one_salary)"
proof -
  have h: "\<forall>i \<in> set one_salary. 0 \<le> amount i \<and> amount i < 10 ^ 8"
    by (simp add: one_salary_def)
  have l: "length one_salary \<le> 400"
    by (simp add: one_salary_def)
  from totalIncome64_normalized [OF h l, of 5000] show ?thesis
    by (simp add: one_salary_def)
qed

section \<open>The category totals\<close>

subsection \<open>The entries of the categories as running sums\<close>

lemma find_name_Some: "find (\<lambda>e. name e = c) acc = Some e \<Longrightarrow> c \<in> set (map name acc)"
  by (auto simp: find_Some_iff)

lemma find_name_None: "find (\<lambda>e. name e = c) acc = None \<Longrightarrow> c \<notin> set (map name acc)"
  by (auto simp: find_None_iff)

lemma find_unique:
  "g \<in> set xs \<Longrightarrow> P g \<Longrightarrow> \<forall>h \<in> set xs. P h \<longrightarrow> h = g \<Longrightarrow> find P xs = Some g"
proof (induction xs)
  case Nil
  then show ?case by simp
next
  case (Cons x xs)
  show ?case
  proof (cases "P x")
    case True
    with Cons.prems(3) have "x = g" by simp
    with True show ?thesis by simp
  next
    case False
    with Cons.prems(1,2) have mem: "g \<in> set xs" by auto
    from Cons.prems(3) have uniq: "\<forall>h \<in> set xs. P h \<longrightarrow> h = g" by simp
    from mem Cons.prems(2) uniq have "find P xs = Some g"
      by (rule Cons.IH)
    with False show ?thesis by simp
  qed
qed

lemma totalExpenses64_sum64: "totalExpenses64 (Some xs) = sum64 0 (map amount xs)"
  by (simp add: totalExpenses64_def orZero_Some sum64_def foldl_map)

lemma addTo64_names: "map name (addTo64 c a es) = map name es"
  by (induction es) simp_all

lemma find_addTo64_same:
  "find (\<lambda>e. name e = c) (addTo64 c a es) =
     map_option (\<lambda>e. e\<lparr>value := plus64 (value e) a\<rparr>) (find (\<lambda>e. name e = c) es)"
  by (induction es) simp_all

lemma find_addTo64_other:
  "c \<noteq> c' \<Longrightarrow> find (\<lambda>e. name e = c) (addTo64 c' a es) = find (\<lambda>e. name e = c) es"
  by (induction es) auto

lemma find_snoc:
  "find P (es @ [e]) = (case find P es of None \<Rightarrow> (if P e then Some e else None) | Some x \<Rightarrow> Some x)"
  by (induction es) simp_all

lemma valueOf_step:
  "valueOf c (categoryStep64 acc item) =
     (if category item = c
      then Some (case valueOf c acc of
                   None \<Rightarrow> parseFloat64 (amount item)
                 | Some v \<Rightarrow> plus64 v (parseFloat64 (amount item)))
      else valueOf c acc)"
proof (cases "find (\<lambda>e. name e = category item) acc")
  case None
  then show ?thesis
    by (auto simp: valueOf_def categoryStep64_def find_snoc split: option.split)
next
  case (Some e)
  then show ?thesis
    by (auto simp: valueOf_def categoryStep64_def find_addTo64_same find_addTo64_other)
qed

lemma valueOf_fold_Some:
  "valueOf c acc = Some v \<Longrightarrow>
     valueOf c (foldl categoryStep64 acc xs) =
       Some (sum64 v (map amount (filter (\<lambda>i. category i = c) xs)))"
proof (induction xs arbitrary: acc v)
  case Nil
  then show ?case by (simp add: sum64_simps)
next
  case (Cons x xs)
  show ?case
  proof (cases "category x = c")
    case True
    with Cons.prems have "valueOf c (categoryStep64 acc x) = Some (plus64 v (parseFloat64 (amount x)))"
      by (simp add: valueOf_step)
    from Cons.IH [OF this] True show ?thesis
      by (simp add: sum64_simps)
  next
    case False
    with Cons.prems have "valueOf c (categoryStep64 acc x) = Some v"
      by (simp add: valueOf_step)
    from Cons.IH [OF this] False show ?thesis
      by simp
  qed
qed

lemma valueOf_fold_None:
  "valueOf c acc = None \<Longrightarrow>
     valueOf c (foldl categoryStep64 acc xs) =
       (case filter (\<lambda>i. category i = c) xs of
          [] \<Rightarrow> None
        | i # rest \<Rightarrow> Some (sum64 (parseFloat64 (amount i)) (map amount rest)))"
proof (induction xs arbitrary: acc)
  case Nil
  then show ?case by simp
next
  case (Cons x xs)
  show ?case
  proof (cases "category x = c")
    case True
    with Cons.prems have "valueOf c (categoryStep64 acc x) = Some (parseFloat64 (amount x))"
      by (simp add: valueOf_step)
    from valueOf_fold_Some [OF this] True show ?thesis
      by simp
  next
    case False
    with Cons.prems have "valueOf c (categoryStep64 acc x) = None"
      by (simp add: valueOf_step)
    from Cons.IH [OF this] False show ?thesis
      by simp
  qed
qed

lemma categoryStep64_distinct:
  "distinct (map name acc) \<Longrightarrow> distinct (map name (categoryStep64 acc item))"
proof (cases "find (\<lambda>e. name e = category item) acc")
  case None
  assume "distinct (map name acc)"
  with None show ?thesis
    using find_name_None [OF None] by (simp add: categoryStep64_def)
next
  case (Some e)
  assume "distinct (map name acc)"
  with Some show ?thesis
    by (simp add: categoryStep64_def addTo64_names)
qed

lemma foldl_categoryStep64_distinct:
  "distinct (map name acc) \<Longrightarrow> distinct (map name (foldl categoryStep64 acc xs))"
  by (induction xs arbitrary: acc) (simp_all add: categoryStep64_distinct)

lemma entry64:
  assumes "e \<in> set (expensesByCategory64 (Some xs))"
  shows "\<exists>i rest. filter (\<lambda>i. category i = name e) xs = i # rest
           \<and> value e = sum64 (parseFloat64 (amount i)) (map amount rest)"
proof -
  define es where "es = foldl categoryStep64 [] xs"
  from assms have mem: "e \<in> set es"
    by (simp add: expensesByCategory64_def es_def)
  have "distinct (map name es)"
    unfolding es_def by (rule foldl_categoryStep64_distinct) simp
  then have inj: "inj_on name (set es)"
    by (simp add: distinct_map)
  have "\<forall>h \<in> set es. name h = name e \<longrightarrow> h = e"
    using inj mem by (auto dest: inj_onD)
  with mem have "find (\<lambda>h. name h = name e) es = Some e"
    by (intro find_unique) simp_all
  then have "valueOf (name e) es = Some (value e)"
    by (simp add: valueOf_def)
  moreover have "valueOf (name e) es =
      (case filter (\<lambda>i. category i = name e) xs of
         [] \<Rightarrow> None
       | i # rest \<Rightarrow> Some (sum64 (parseFloat64 (amount i)) (map amount rest)))"
    unfolding es_def by (rule valueOf_fold_None) (simp add: valueOf_def)
  ultimately show ?thesis
    by (auto split: list.splits)
qed

lemma categoryStep64_names:
  "set (map name (categoryStep64 acc item)) = insert (category item) (set (map name acc))"
proof (cases "find (\<lambda>e. name e = category item) acc")
  case None
  then show ?thesis
    by (simp add: categoryStep64_def)
next
  case (Some e)
  then have "category item \<in> set (map name acc)"
    by (rule find_name_Some)
  with Some show ?thesis
    by (auto simp: categoryStep64_def addTo64_names simp del: set_map)
qed

lemma foldl_categoryStep64_names:
  "set (map name (foldl categoryStep64 acc xs)) = set (map name acc) \<union> set (map category xs)"
proof (induction xs arbitrary: acc)
  case Nil
  show ?case by simp
next
  case (Cons x xs)
  have "set (map name (foldl categoryStep64 acc (x # xs))) =
      set (map name (categoryStep64 acc x)) \<union> set (map category xs)"
    using Cons.IH [of "categoryStep64 acc x"] by simp
  also have "\<dots> = set (map name acc) \<union> set (map category (x # xs))"
    unfolding categoryStep64_names by auto
  finally show ?case .
qed

subsection \<open>The grand total and the sum of the entries\<close>

lemma sum_list_one_of:
  fixes a :: rat
  assumes "distinct cs" and "c \<in> set cs"
  shows "sum_list (map (\<lambda>c'. if c = c' then a else 0) cs) = a"
  using assms
proof (induction cs)
  case Nil
  then show ?case by simp
next
  case (Cons d cs)
  show ?case
  proof (cases "c = d")
    case True
    with Cons.prems(1) have "c \<notin> set cs" by simp
    then have "sum_list (map (\<lambda>c'. if c = c' then a else 0) cs) = 0"
      by (induction cs) auto
    with True show ?thesis by simp
  next
    case False
    with Cons show ?thesis by simp
  qed
qed

lemma partition_sum:
  fixes f :: "'a \<Rightarrow> rat"
  assumes "distinct cs" and "set (map k xs) \<subseteq> set cs"
  shows "sum_list (map (\<lambda>c. sum_list (map f (filter (\<lambda>i. k i = c) xs))) cs) = sum_list (map f xs)"
  using assms(2)
proof (induction xs)
  case Nil
  show ?case by simp
next
  case (Cons x xs)
  then have mem: "k x \<in> set cs" and sub: "set (map k xs) \<subseteq> set cs"
    by simp_all
  have "sum_list (map (\<lambda>c. sum_list (map f (filter (\<lambda>i. k i = c) (x # xs)))) cs)
      = sum_list (map (\<lambda>c. (if k x = c then f x else 0)
          + sum_list (map f (filter (\<lambda>i. k i = c) xs))) cs)"
    by (intro arg_cong [where f = sum_list] map_cong) simp_all
  also have "\<dots> = sum_list (map (\<lambda>c. if k x = c then f x else 0) cs)
      + sum_list (map (\<lambda>c. sum_list (map f (filter (\<lambda>i. k i = c) xs))) cs)"
    by (rule sum_list_addf)
  also have "\<dots> = f x + sum_list (map f xs)"
    using sum_list_one_of [OF assms(1) mem] Cons.IH [OF sub] by simp
  finally show ?case by simp
qed

lemma entries_sum_error:
  fixes t :: "string \<Rightarrow> rat"
  assumes "\<forall>e \<in> set es. \<bar>value e - t (name e)\<bar> \<le> K * t (name e)"
  shows "\<bar>sum_list (map value es) - sum_list (map t (map name es))\<bar>
           \<le> K * sum_list (map t (map name es))"
  using assms
proof (induction es)
  case Nil
  show ?case by simp
next
  case (Cons e es)
  then have one: "\<bar>value e - t (name e)\<bar> \<le> K * t (name e)"
    and rest: "\<bar>sum_list (map value es) - sum_list (map t (map name es))\<bar>
           \<le> K * sum_list (map t (map name es))"
    by simp_all
  have "K * sum_list (map t (map name (e # es)))
      = K * t (name e) + K * sum_list (map t (map name es))"
    by (simp add: distrib_left)
  with one rest show ?case
    by simp
qed

lemma expenses64_entries_total:
  assumes "\<forall>i \<in> set xs. 0 \<le> amount i \<and> amount i < 10 ^ 8" and "length xs \<le> 400"
  shows "\<bar>totalExpenses64 (Some xs) - sum_list (map value (expensesByCategory64 (Some xs)))\<bar>
           < 1 / 100"
proof -
  define T where "T = sum_list (map amount xs)"
  define es where "es = expensesByCategory64 (Some xs)"
  define t where "t c = sum_list (map amount (filter (\<lambda>i. category i = c) xs))" for c
  define K where "K = 2 * of_nat 401 * eps64"
  have K: "0 \<le> K"
    using eps64_range by (simp add: K_def)
  have nonneg: "\<forall>a \<in> set (map amount xs). 0 \<le> a"
    using assms(1) by simp
  have T0: "0 \<le> T"
    unfolding T_def using nonneg by (intro sum_list_nonneg) auto
  have "T \<le> of_nat (length (map amount xs)) * 10 ^ 8"
    unfolding T_def using assms(1) by (intro sum_list_below) simp
  also have "\<dots> \<le> 400 * 10 ^ 8"
    using assms(2) of_nat_le_iff [of "length xs" 400, where ?'a = rat]
    by (intro mult_right_mono) simp_all
  finally have T1: "T \<le> 400 * 10 ^ 8" .
  have le: "2 * of_nat (Suc n) * eps64 \<le> K" if "n < 401" for n
  proof -
    from that have "Suc n \<le> 401" by simp
    then have "(of_nat (Suc n) :: rat) \<le> of_nat 401"
      by (simp only: of_nat_le_iff)
    then show ?thesis
      unfolding K_def using eps64_range by (intro mult_right_mono mult_left_mono) simp_all
  qed
  have total: "\<bar>totalExpenses64 (Some xs) - T\<bar> \<le> K * T"
  proof -
    have m: "Suc (length (map amount xs)) \<le> 401"
      using assms(2) by simp
    from sum64_from_zero(1) [OF nonneg few_rows_small [OF m]]
    have "\<bar>totalExpenses64 (Some xs) - T\<bar> \<le> 2 * of_nat (Suc (length xs)) * eps64 * T"
      by (simp add: totalExpenses64_sum64 T_def)
    also have "\<dots> \<le> K * T"
      using le [of "length xs"] assms(2) T0 by (intro mult_right_mono) simp_all
    finally show ?thesis .
  qed
  have entry: "\<bar>value e - t (name e)\<bar> \<le> K * t (name e)" if "e \<in> set es" for e
  proof -
    from that entry64 [of e xs] obtain i rest
      where f: "filter (\<lambda>i. category i = name e) xs = i # rest"
        and v: "value e = sum64 (parseFloat64 (amount i)) (map amount rest)"
      unfolding es_def by blast
    have sub: "set (i # rest) \<subseteq> set xs"
      unfolding f [symmetric] by simp
    have len: "length (i # rest) \<le> 400"
      using length_filter_le [of "\<lambda>i. category i = name e" xs] assms(2)
      unfolding f by simp
    from sub assms(1) have i: "0 \<le> amount i"
      and rest: "\<forall>a \<in> set (map amount rest). 0 \<le> a"
      by auto
    have m: "Suc (length (map amount rest)) \<le> 401"
      using len by simp
    have te: "t (name e) = amount i + sum_list (map amount rest)"
      by (simp add: t_def f)
    have t0: "0 \<le> t (name e)"
      unfolding te using i rest by (intro add_nonneg_nonneg sum_list_nonneg) auto
    from sum64_from_first(1) [OF i rest few_rows_small [OF m]]
    have "\<bar>value e - t (name e)\<bar> \<le> 2 * of_nat (Suc (length rest)) * eps64 * t (name e)"
      by (simp add: v te)
    also have "\<dots> \<le> K * t (name e)"
      using le [of "length rest"] len t0 by (intro mult_right_mono) simp_all
    finally show ?thesis .
  qed
  have part: "sum_list (map t (map name es)) = T"
  proof -
    have "distinct (map name es)"
      unfolding es_def expensesByCategory64_def option.case
      by (rule foldl_categoryStep64_distinct) simp
    moreover have "set (map category xs) \<subseteq> set (map name es)"
      unfolding es_def expensesByCategory64_def option.case foldl_categoryStep64_names
      by simp
    ultimately have "sum_list (map (\<lambda>c. sum_list (map amount (filter (\<lambda>i. category i = c) xs)))
        (map name es)) = sum_list (map amount xs)"
      by (rule partition_sum)
    then show ?thesis
      by (simp add: t_def [abs_def] T_def)
  qed
  from entry have "\<bar>sum_list (map value es) - sum_list (map t (map name es))\<bar>
      \<le> K * sum_list (map t (map name es))"
    by (intro entries_sum_error) simp
  then have entries: "\<bar>sum_list (map value es) - T\<bar> \<le> K * T"
    by (simp only: part)
  have "K * T \<le> K * (400 * 10 ^ 8)"
    using T1 K by (rule mult_left_mono)
  also have "\<dots> < 1 / 200"
    by (simp add: K_def eps64_def)
  finally have "K * T < 1 / 200" .
  with total entries show ?thesis
    unfolding es_def by linarith
qed

subsection \<open>Examples\<close>

lemma tenth64: "binary64 (1 / 10) = 3602879701896397 / 36028797018963968"
  by (subst binary64_eval [of "-4"]) (simp_all add: round_even_def Let_def floor_numeral_div)

lemma fifth64: "binary64 (1 / 5) = 3602879701896397 / 18014398509481984"
  by (subst binary64_eval [of "-3"]) (simp_all add: round_even_def Let_def floor_numeral_div)

lemma tenth64_again:
  "binary64 (3602879701896397 / 36028797018963968) = 3602879701896397 / 36028797018963968"
  by (subst binary64_eval [of "-4"]) (simp_all add: round_even_def Let_def floor_numeral_div)

lemma three_tenths64: "binary64 (3 / 10) = 5404319552844595 / 18014398509481984"
  by (subst binary64_eval [of "-2"]) (simp_all add: round_even_def Let_def floor_numeral_div)

lemma tenth_plus_fifth64:
  "binary64 (10808639105689191 / 36028797018963968) = 1351079888211149 / 4503599627370496"
  by (subst binary64_eval [of "-2"]) (simp_all add: round_even_def Let_def floor_numeral_div)

lemma five64_3: "binary64 (7 / 10) = 3152519739159347 / 4503599627370496"
  by (subst binary64_eval [of "-1"]) (simp_all add: round_even_def Let_def floor_numeral_div)

lemma five64_4: "binary64 (28823037615171173 / 36028797018963968) = 7205759403792793 / 9007199254740992"
  by (subst binary64_eval [of "-1"]) (simp_all add: round_even_def Let_def floor_numeral_div)

lemma five64_6: "binary64 (18014398509481983 / 18014398509481984) = 1"
  by (subst binary64_eval [of "-1"]) (simp_all add: round_even_def Let_def floor_numeral_div)

lemma five64_7: "binary64 (10808639105689191 / 36028797018963968) = 1351079888211149 / 4503599627370496"
  by (subst binary64_eval [of "-2"]) (simp_all add: round_even_def Let_def floor_numeral_div)

lemma five64_8: "binary64 (39631676720860365 / 36028797018963968) = 2476979795053773 / 2251799813685248"
  by (subst binary64_eval [of "0"]) (simp_all add: round_even_def Let_def floor_numeral_div)

lemma five64_10: "binary64 (25220157913274779 / 18014398509481984) = 6305039478318695 / 4503599627370496"
  by (subst binary64_eval [of "0"]) (simp_all add: round_even_def Let_def floor_numeral_div)

lemma five64_11: "binary64 (10808639105689191 / 18014398509481984) = 1351079888211149 / 2251799813685248"
  by (subst binary64_eval [of "-1"]) (simp_all add: round_even_def Let_def floor_numeral_div)

lemma five64_12: "binary64 (1351079888211149 / 2251799813685248) = 1351079888211149 / 2251799813685248"
  by (subst binary64_eval [of "-1"]) (simp_all add: round_even_def Let_def floor_numeral_div)

lemma five64_13: "binary64 (12610078956637389 / 9007199254740992) = 3152519739159347 / 2251799813685248"
  by (subst binary64_eval [of "0"]) (simp_all add: round_even_def Let_def floor_numeral_div)

lemma five_rows_total:
  "totalExpenses64 (Some five_rows) = 6305039478318695 / 4503599627370496"
  by (simp add: totalExpenses64_def orZero_def five_rows_def plus64_def parseFloat64_def
      tenth64 fifth64 tenth64_again three_tenths64 five64_3 five64_4 five64_6 five64_8 five64_10)

lemma five_rows_entries:
  "expensesByCategory64 (Some five_rows)
     = [\<lparr>name = ''Food'', value = 1351079888211149 / 2251799813685248\<rparr>,
        \<lparr>name = ''Hotels'', value = 7205759403792793 / 9007199254740992\<rparr>]"
  by (simp add: expensesByCategory64_def categoryStep64_def five_rows_def plus64_def
      parseFloat64_def tenth64 fifth64 three_tenths64 five64_3 five64_4 five64_7 five64_11)

text \<open>
  C2, as stated, fails: the grand total and the entries are binary64 sums taken in
  different orders. For expenses of 0.10 and 0.20 and 0.30 on food and 0.70 and 0.10 on
  hotels, in the order food, hotels, food, hotels, food, the grand total is
  1.4000000000000001 and the entries hold 0.6000000000000001 and 0.7999999999999999:
  their sum is not the grand total, neither the exact sum nor the binary64 sum (1.4).
\<close>

theorem expensesByCategory64_total_differs:
  "totalExpenses64 (Some five_rows) = 6305039478318695 / 4503599627370496
   \<and> expensesByCategory64 (Some five_rows)
       = [\<lparr>name = ''Food'', value = 1351079888211149 / 2251799813685248\<rparr>,
          \<lparr>name = ''Hotels'', value = 7205759403792793 / 9007199254740992\<rparr>]
   \<and> sum_list (map value (expensesByCategory64 (Some five_rows)))
       = 12610078956637389 / 9007199254740992
   \<and> foldl plus64 0 (map value (expensesByCategory64 (Some five_rows)))
       = 3152519739159347 / 2251799813685248
   \<and> totalExpenses64 (Some five_rows)
       \<noteq> sum_list (map value (expensesByCategory64 (Some five_rows)))
   \<and> totalExpenses64 (Some five_rows)
       \<noteq> foldl plus64 0 (map value (expensesByCategory64 (Some five_rows)))"
  unfolding five_rows_total five_rows_entries
  by (simp add: plus64_def five64_12 five64_13)

text \<open>
  C2, amended. For every list of expense records the categories of the entries are
  exactly the categories of the input (none that the input does not have), each with one
  entry; the grand total is the binary64 running sum of all amounts in their order, and
  the value of an entry is the binary64 running sum of the amounts of its category, all
  of them and each once, in their order. For at most 400 records with amounts from 0 to
  below 10^8 the grand total and the sum of the values of the entries differ by less
  than a cent.
\<close>

theorem expensesByCategory64_total:
  "set (map name (expensesByCategory64 (Some xs))) = set (map category xs)
   \<and> distinct (map name (expensesByCategory64 (Some xs)))
   \<and> totalExpenses64 (Some xs) = sum64 0 (map amount xs)
   \<and> (\<forall>e \<in> set (expensesByCategory64 (Some xs)).
        \<exists>i rest. filter (\<lambda>i. category i = name e) xs = i # rest
          \<and> value e = sum64 (parseFloat64 (amount i)) (map amount rest))
   \<and> ((\<forall>i \<in> set xs. 0 \<le> amount i \<and> amount i < 10 ^ 8) \<and> length xs \<le> 400 \<longrightarrow>
        \<bar>totalExpenses64 (Some xs) - sum_list (map value (expensesByCategory64 (Some xs)))\<bar>
          < 1 / 100)"
proof -
  have "set (map name (expensesByCategory64 (Some xs))) = set (map category xs)"
    unfolding expensesByCategory64_def option.case foldl_categoryStep64_names by simp
  moreover have "distinct (map name (expensesByCategory64 (Some xs)))"
    by (simp add: expensesByCategory64_def foldl_categoryStep64_distinct)
  moreover note totalExpenses64_sum64 [of xs]
  moreover have "\<forall>e \<in> set (expensesByCategory64 (Some xs)).
        \<exists>i rest. filter (\<lambda>i. category i = name e) xs = i # rest
          \<and> value e = sum64 (parseFloat64 (amount i)) (map amount rest)"
    using entry64 [of _ xs] by blast
  moreover have "\<bar>totalExpenses64 (Some xs)
        - sum_list (map value (expensesByCategory64 (Some xs)))\<bar> < 1 / 100"
    if "(\<forall>i \<in> set xs. 0 \<le> amount i \<and> amount i < 10 ^ 8) \<and> length xs \<le> 400"
    using that expenses64_entries_total [of xs] by blast
  ultimately show ?thesis
    by blast
qed

theorem expensesByCategory64_total_witness:
  "set (map name (expensesByCategory64 (Some five_rows))) = {''Food'', ''Hotels''}
   \<and> \<bar>totalExpenses64 (Some five_rows)
        - sum_list (map value (expensesByCategory64 (Some five_rows)))\<bar> < 1 / 100
   \<and> value (hd (expensesByCategory64 (Some five_rows)))
        = sum64 (parseFloat64 (10 / 100)) [20 / 100, 30 / 100]"
proof -
  have h: "(\<forall>i \<in> set five_rows. 0 \<le> amount i \<and> amount i < 10 ^ 8) \<and> length five_rows \<le> 400"
    by (simp add: five_rows_def)
  have c: "set (map category five_rows) = {''Food'', ''Hotels''}"
    by (auto simp: five_rows_def)
  have m: "hd (expensesByCategory64 (Some five_rows)) \<in> set (expensesByCategory64 (Some five_rows))"
    by (simp add: five_rows_entries)
  have n: "name (hd (expensesByCategory64 (Some five_rows))) = ''Food''"
    by (simp add: five_rows_entries)
  have f: "filter (\<lambda>i. category i = ''Food'') five_rows
      = [\<lparr>amount = 10 / 100, category = ''Food''\<rparr>, \<lparr>amount = 20 / 100, category = ''Food''\<rparr>,
         \<lparr>amount = 30 / 100, category = ''Food''\<rparr>]"
    by (simp add: five_rows_def)
  note t = expensesByCategory64_total [of five_rows]
  from t h have "\<bar>totalExpenses64 (Some five_rows)
        - sum_list (map value (expensesByCategory64 (Some five_rows)))\<bar> < 1 / 100"
    by blast
  moreover from t c have "set (map name (expensesByCategory64 (Some five_rows))) = {''Food'', ''Hotels''}"
    by simp
  moreover from t m have "\<exists>i rest.
      filter (\<lambda>i. category i = name (hd (expensesByCategory64 (Some five_rows)))) five_rows = i # rest
      \<and> value (hd (expensesByCategory64 (Some five_rows)))
          = sum64 (parseFloat64 (amount i)) (map amount rest)"
    by blast
  then have "value (hd (expensesByCategory64 (Some five_rows)))
        = sum64 (parseFloat64 (10 / 100)) [20 / 100, 30 / 100]"
    unfolding n f by auto
  ultimately show ?thesis
    by blast
qed

text \<open>
  C5, as stated, fails: the sums are binary64 sums. For two expenses of 0.10 and 0.20 in
  one category the exact sum is 0.3, while the computed grand total and the category's
  total are 5404319552844596 / 2^54 (printed 0.30000000000000004), which is neither 0.3
  nor the binary64 number nearest to 0.3.
\<close>

theorem expenses64_not_exact:
  "sum_list (map amount two_meals) = 3 / 10
   \<and> totalExpenses64 (Some two_meals) = 5404319552844596 / 18014398509481984
   \<and> expensesByCategory64 (Some two_meals)
       = [\<lparr>name = ''Food'', value = 5404319552844596 / 18014398509481984\<rparr>]
   \<and> totalExpenses64 (Some two_meals) \<noteq> sum_list (map amount two_meals)
   \<and> totalExpenses64 (Some two_meals) \<noteq> binary64 (sum_list (map amount two_meals))"
proof -
  have zero: "binary64 (0 + binary64 (1 / 10)) = 3602879701896397 / 36028797018963968"
    by (simp add: tenth64 tenth64_again)
  have total: "totalExpenses64 (Some two_meals) = 5404319552844596 / 18014398509481984"
    by (simp add: totalExpenses64_def orZero_def two_meals_def plus64_def parseFloat64_def
        tenth64 fifth64 tenth64_again tenth_plus_fifth64)
  have cats: "expensesByCategory64 (Some two_meals)
      = [\<lparr>name = ''Food'', value = 5404319552844596 / 18014398509481984\<rparr>]"
    by (simp add: expensesByCategory64_def categoryStep64_def two_meals_def plus64_def
        parseFloat64_def tenth64 fifth64 tenth_plus_fifth64)
  have exact: "sum_list (map amount two_meals) = 3 / 10"
    by (simp add: two_meals_def)
  show ?thesis
    unfolding total cats exact three_tenths64 by simp
qed

text \<open>
  C5, amended. The sums of the category aggregator are binary64 sums, not exact decimal
  sums. For every list of at most 400 expenses with amounts of two decimals from 0 to
  below 10^8 (the column's range), the computed grand total and every category's total
  differ from the exact decimal sum by less than half a cent, and the grand total as the
  dashboard prints it, to two decimals, is the exact sum.
\<close>

theorem expenses64_cent_level:
  assumes "\<forall>i \<in> set xs. 0 \<le> amount i \<and> amount i < 10 ^ 8 \<and> 100 * amount i \<in> \<int>"
    and "length xs \<le> 400"
  shows "\<bar>totalExpenses64 (Some xs) - sum_list (map amount xs)\<bar> < 1 / 200
       \<and> toFixed2 (totalExpenses64 (Some xs)) = sum_list (map amount xs)
       \<and> (\<forall>e \<in> set (expensesByCategory64 (Some xs)).
            \<bar>value e - sum_list (map amount (filter (\<lambda>i. category i = name e) xs))\<bar> < 1 / 200)"
proof -
  have part: "\<bar>s - sum_list ds\<bar> < 1 / 200 \<and> toFixed2 s = sum_list ds"
    if ds: "\<forall>a \<in> set ds. 0 \<le> a \<and> a < 10 ^ 8 \<and> 100 * a \<in> \<int>" and len: "length ds \<le> 400"
      and m: "m \<le> 401" and s: "0 \<le> s"
      and err: "\<bar>s - sum_list ds\<bar> \<le> 2 * of_nat m * eps64 * sum_list ds"
    for s :: rat and ds m
  proof -
    from ds have T: "0 \<le> sum_list ds"
      by (simp add: sum_list_nonneg)
    from ds have "sum_list ds \<le> of_nat (length ds) * 10 ^ 8"
      by (intro sum_list_below) simp
    also have "\<dots> \<le> 400 * 10 ^ 8"
      using len of_nat_le_iff [of "length ds" 400, where ?'a = rat]
      by (intro mult_right_mono) simp_all
    finally have "sum_list ds \<le> 400 * 10 ^ 8" .
    with T have close: "\<bar>s - sum_list ds\<bar> < 1 / 200"
      using m err by (rule below_half_cent)
    from ds have "100 * sum_list ds \<in> \<int>"
      by (intro cents_sum_list) simp
    with close have "toFixed2 s = sum_list ds"
      using s by (rule toFixed2_exact)
    with close show ?thesis by simp
  qed
  have all: "\<forall>a \<in> set (map amount xs). 0 \<le> a \<and> a < 10 ^ 8 \<and> 100 * a \<in> \<int>"
    using assms(1) by simp
  have total: "\<bar>totalExpenses64 (Some xs) - sum_list (map amount xs)\<bar> < 1 / 200
      \<and> toFixed2 (totalExpenses64 (Some xs)) = sum_list (map amount xs)"
  proof -
    have m: "Suc (length (map amount xs)) \<le> 401"
      using assms(2) by simp
    have nonneg: "\<forall>a \<in> set (map amount xs). 0 \<le> a"
      using assms(1) by simp
    note z = sum64_from_zero [OF nonneg few_rows_small [OF m]]
    from all _ m z(2) z(1) show ?thesis
      unfolding totalExpenses64_sum64 by (rule part) (use assms(2) in simp)
  qed
  have entry: "\<bar>value e - sum_list (map amount (filter (\<lambda>i. category i = name e) xs))\<bar> < 1 / 200"
    if "e \<in> set (expensesByCategory64 (Some xs))" for e
  proof -
    from entry64 [OF that] obtain i rest
      where f: "filter (\<lambda>i. category i = name e) xs = i # rest"
        and v: "value e = sum64 (parseFloat64 (amount i)) (map amount rest)"
      by blast
    have sub: "set (i # rest) \<subseteq> set xs"
      unfolding f [symmetric] by simp
    have len: "length (i # rest) \<le> 400"
      using length_filter_le [of "\<lambda>i. category i = name e" xs] assms(2)
      unfolding f by simp
    from sub assms(1) have i: "0 \<le> amount i"
      and rest: "\<forall>a \<in> set (map amount rest). 0 \<le> a"
      and ds: "\<forall>a \<in> set (map amount (i # rest)). 0 \<le> a \<and> a < 10 ^ 8 \<and> 100 * a \<in> \<int>"
      by auto
    have m: "Suc (length (map amount rest)) \<le> 401"
      using len by simp
    note z = sum64_from_first [OF i rest few_rows_small [OF m]]
    have len': "length (map amount (i # rest)) \<le> 400"
      using len by simp
    from z(1) have err: "\<bar>value e - sum_list (map amount (i # rest))\<bar>
        \<le> 2 * of_nat (Suc (length (map amount rest))) * eps64 * sum_list (map amount (i # rest))"
      by (simp add: v)
    from z(2) have s: "0 \<le> value e"
      by (simp add: v)
    from part [OF ds len' m s err] show ?thesis
      by (simp add: f)
  qed
  from total entry show ?thesis by blast
qed

theorem expenses64_cent_level_witness:
  "\<bar>totalExpenses64 (Some two_meals) - 3 / 10\<bar> < 1 / 200
   \<and> toFixed2 (totalExpenses64 (Some two_meals)) = 3 / 10
   \<and> totalExpenses64 (Some two_meals) \<noteq> 3 / 10"
proof -
  have h: "\<forall>i \<in> set two_meals. 0 \<le> amount i \<and> amount i < 10 ^ 8 \<and> 100 * amount i \<in> \<int>"
    by (simp add: two_meals_def)
  have l: "length two_meals \<le> 400"
    by (simp add: two_meals_def)
  have exact: "sum_list (map amount two_meals) = 3 / 10"
    by (simp add: two_meals_def)
  have total: "totalExpenses64 (Some two_meals) = 5404319552844596 / 18014398509481984"
    by (simp add: totalExpenses64_def orZero_def two_meals_def plus64_def parseFloat64_def
        tenth64 fifth64 tenth64_again tenth_plus_fifth64)
  from expenses64_cent_level [OF h l] have "\<bar>totalExpenses64 (Some two_meals) - 3 / 10\<bar> < 1 / 200
      \<and> toFixed2 (totalExpenses64 (Some two_meals)) = 3 / 10"
    by (simp add: exact)
  moreover have "totalExpenses64 (Some two_meals) \<noteq> 3 / 10"
    unfolding total by simp
  ultimately show ?thesis by simp
qed

section \<open>The progress over all goals\<close>

lemma savings64_sums:
  "totalTargetSavings64 (Some gs) = sum64 0 (map target_amount gs)"
  "totalCurrentSavings64 (Some gs) = sum64 0 (map current_amount gs)"
  by (simp_all add: totalTargetSavings64_def totalCurrentSavings64_def orZero_Some sum64_def
      foldl_map)

lemma b64_4000: "binary64 (4000) = 4000"
  by (subst binary64_eval [of "11"]) (simp_all add: round_even_def Let_def floor_numeral_div)

lemma b64_2300: "binary64 (2300) = 2300"
  by (subst binary64_eval [of "11"]) (simp_all add: round_even_def Let_def floor_numeral_div)

lemma b64_23_40: "binary64 (23 / 40) = 2589569785738035 / 4503599627370496"
  by (subst binary64_eval [of "-1"]) (simp_all add: round_even_def Let_def floor_numeral_div)

lemma b64_57_5: "binary64 (64739244643450875 / 1125899906842624) = 8092405580431359 / 140737488355328"
  by (subst binary64_eval [of "5"]) (simp_all add: round_even_def Let_def floor_numeral_div)

text \<open>
  C6, as stated, fails: the quotient and the product round. For one goal of 4000 with
  2300 saved the exact progress is 57.5, while the computed one is
  8092405580431359 / 2^47 (printed 57.49999999999999): the dashboard shows 57 percent
  where the exact value shows 58.
\<close>

theorem savingsGoalProgress64_not_exact:
  "savingsGoalProgress64 (Some one_goal) = 8092405580431359 / 140737488355328
   \<and> sum_list (map current_amount one_goal) / sum_list (map target_amount one_goal) * 100 = 115 / 2
   \<and> savingsGoalProgress64 (Some one_goal)
       \<noteq> sum_list (map current_amount one_goal) / sum_list (map target_amount one_goal) * 100
   \<and> toFixed0 (savingsGoalProgress64 (Some one_goal)) = 57
   \<and> toFixed0 (115 / 2) = 58"
proof -
  have T: "totalTargetSavings64 (Some one_goal) = 4000"
    by (simp add: totalTargetSavings64_def orZero_def one_goal_def plus64_def parseFloat64_def
        b64_4000)
  have C: "totalCurrentSavings64 (Some one_goal) = 2300"
    by (simp add: totalCurrentSavings64_def orZero_def one_goal_def plus64_def parseFloat64_def
        b64_2300)
  have p: "savingsGoalProgress64 (Some one_goal) = 8092405580431359 / 140737488355328"
    by (simp add: savingsGoalProgress64_def T C divide64_def times64_def b64_23_40 b64_57_5)
  have exact: "sum_list (map current_amount one_goal) / sum_list (map target_amount one_goal) * 100
      = 115 / 2"
    by (simp add: one_goal_def)
  show ?thesis
    unfolding p exact by (simp add: toFixed0_def floor_numeral_div)
qed

text \<open>
  C6, amended. For every list of at most 1000 savings goals with targets and current
  amounts that are not negative, the computed progress differs from (sum of the current
  amounts / sum of the targets) * 100 by at most that value / 10^12 when the sum of the
  targets is positive, and is 0 when that sum is 0. For no goals, and for missing data,
  it is 0: no division is attempted.
\<close>

theorem savingsGoalProgress64_ratio:
  assumes "\<forall>g \<in> set gs. 0 \<le> target_amount g \<and> 0 \<le> current_amount g" and "length gs \<le> 1000"
  shows "(0 < sum_list (map target_amount gs) \<longrightarrow>
            \<bar>savingsGoalProgress64 (Some gs)
               - sum_list (map current_amount gs) / sum_list (map target_amount gs) * 100\<bar>
              \<le> sum_list (map current_amount gs) / sum_list (map target_amount gs) * 100 / 10 ^ 12)
       \<and> (sum_list (map target_amount gs) = 0 \<longrightarrow> savingsGoalProgress64 (Some gs) = 0)
       \<and> savingsGoalProgress64 (Some []) = 0
       \<and> savingsGoalProgress64 None = 0"
proof -
  define n where "n = length gs"
  define T where "T = sum_list (map target_amount gs)"
  define C where "C = sum_list (map current_amount gs)"
  have nT: "near (Suc n) (totalTargetSavings64 (Some gs)) T"
    unfolding savings64_sums T_def n_def
    using sum64_near [of "map target_amount gs"] assms(1) by simp
  have nC: "near (Suc n) (totalCurrentSavings64 (Some gs)) C"
    unfolding savings64_sums C_def n_def
    using sum64_near [of "map current_amount gs"] assms(1) by simp
  have C0: "0 \<le> C"
    unfolding C_def using assms(1) by (intro sum_list_nonneg) auto
  have main: "\<bar>savingsGoalProgress64 (Some gs) - C / T * 100\<bar> \<le> C / T * 100 / 10 ^ 12" if T: "0 < T"
  proof -
    from T nT have pos: "0 < totalTargetSavings64 (Some gs)"
      by (rule near_pos)
    have E: "0 \<le> C / T" "0 \<le> C / T * 100"
      using C0 T by simp_all
    from C0 T nC nT
    have "near (Suc n + 2 * Suc n) (totalCurrentSavings64 (Some gs) / totalTargetSavings64 (Some gs)) (C / T)"
      by (rule near_quot)
    with E(1) have "near (Suc (Suc n + 2 * Suc n))
        (divide64 (totalCurrentSavings64 (Some gs)) (totalTargetSavings64 (Some gs))) (C / T)"
      unfolding divide64_def by (rule near_round)
    then have "near (Suc (Suc n + 2 * Suc n))
        (divide64 (totalCurrentSavings64 (Some gs)) (totalTargetSavings64 (Some gs)) * 100) (C / T * 100)"
      by (intro near_scale) simp_all
    with E(2) have "near (Suc (Suc (Suc n + 2 * Suc n))) (savingsGoalProgress64 (Some gs)) (C / T * 100)"
      unfolding savingsGoalProgress64_def times64_def using pos by (simp add: near_round)
    moreover have m: "Suc (Suc (Suc n + 2 * Suc n)) \<le> 3005"
      using assms(2) by (simp add: n_def)
    ultimately have "\<bar>savingsGoalProgress64 (Some gs) - C / T * 100\<bar>
        \<le> 2 * of_nat (Suc (Suc (Suc n + 2 * Suc n))) * eps64 * (C / T * 100)"
      using E(2) few_rows_small_wide(1) [OF m] by (intro near_abs)
    also have "\<dots> \<le> 1 / 10 ^ 12 * (C / T * 100)"
      using few_rows_small_wide(2) [OF m] E(2) by (rule mult_right_mono)
    finally show ?thesis by simp
  qed
  have zero: "savingsGoalProgress64 (Some gs) = 0" if "T = 0"
  proof -
    from nT that have "totalTargetSavings64 (Some gs) = 0"
      by (simp add: near_zero)
    then show ?thesis
      by (simp add: savingsGoalProgress64_def)
  qed
  have "savingsGoalProgress64 (Some []) = 0"
    by (simp add: savingsGoalProgress64_def totalTargetSavings64_def orZero_Some)
  moreover have "savingsGoalProgress64 None = 0"
    by (simp add: savingsGoalProgress64_def totalTargetSavings64_def orZero_def)
  ultimately show ?thesis
    using main zero unfolding T_def C_def by blast
qed

theorem savingsGoalProgress64_ratio_witness:
  "\<bar>savingsGoalProgress64 (Some one_goal) - 115 / 2\<bar> \<le> 115 / 2 / 10 ^ 12
   \<and> savingsGoalProgress64 (Some [\<lparr>target_amount = 0, current_amount = 5\<rparr>]) = 0"
proof -
  have h: "\<forall>g \<in> set one_goal. 0 \<le> target_amount g \<and> 0 \<le> current_amount g"
    by (simp add: one_goal_def)
  have l: "length one_goal \<le> 1000"
    by (simp add: one_goal_def)
  have h': "\<forall>g \<in> set [\<lparr>target_amount = 0, current_amount = 5\<rparr>].
      0 \<le> target_amount g \<and> 0 \<le> current_amount g"
    by simp
  have l': "length [\<lparr>target_amount = 0, current_amount = (5::rat)\<rparr>] \<le> 1000"
    by simp
  from savingsGoalProgress64_ratio [OF h l] savingsGoalProgress64_ratio [OF h' l']
  show ?thesis
    by (simp add: one_goal_def)
qed

section \<open>The pacing figure\<close>

lemma daysUntilTarget_iff:
  "daysUntilTarget goal now = d \<longleftrightarrow>
     (d - 1) * 86400000 < target_date goal - now \<and> target_date goal - now \<le> d * 86400000"
proof -
  have "daysUntilTarget goal now = d \<longleftrightarrow>
      of_int d - 1 < (of_int (target_date goal - now) :: rat) / 86400000
      \<and> (of_int (target_date goal - now) :: rat) / 86400000 \<le> of_int d"
    unfolding daysUntilTarget_def by (simp add: ceiling_eq_iff)
  also have "\<dots> \<longleftrightarrow>
      (of_int ((d - 1) * 86400000) :: rat) < of_int (target_date goal - now)
      \<and> (of_int (target_date goal - now) :: rat) \<le> of_int (d * 86400000)"
    by (simp add: pos_less_divide_eq pos_divide_le_eq algebra_simps)
  also have "\<dots> \<longleftrightarrow>
      (d - 1) * 86400000 < target_date goal - now \<and> target_date goal - now \<le> d * 86400000"
    unfolding of_int_less_iff of_int_le_iff ..
  finally show ?thesis .
qed

lemma daysUntilTarget_pos_iff: "0 < daysUntilTarget goal now \<longleftrightarrow> now < target_date goal"
  unfolding daysUntilTarget_def by (simp add: zero_less_divide_iff)

lemma pacing_error:
  fixes t c :: rat and d :: int
  assumes "0 \<le> t" and "t < 10 ^ 8" and "0 \<le> c" and "c < 10 ^ 8" and "0 < d"
  shows "\<bar>divide64 (minus64 (parseFloat64 t) (parseFloat64 c)) (divide64 (of_int d) 30)
           - (t - c) / (of_int d / 30)\<bar> < 1 / 100000"
proof -
  define e where "e = eps64"
  define A :: rat where "A = 10 ^ 8"
  define t' where "t' = binary64 t"
  define c' where "c' = binary64 c"
  define D where "D = t - c"
  define D' where "D' = binary64 (t' - c')"
  define q :: rat where "q = of_int d / 30"
  define q' where "q' = binary64 q"
  define p where "p = 1 / q'"
  have e: "0 < e" "e \<le> 1 / 2" and A: "0 < A"
    by (simp_all add: e_def eps64_def A_def)
  have small: "420 * (e * A) < 1 / 100000"
    by (simp add: e_def eps64_def A_def)
  have eA: "0 \<le> e * A"
    using e A by simp
  have t1: "\<bar>t' - t\<bar> \<le> e * A"
  proof -
    have "\<bar>t' - t\<bar> \<le> e * \<bar>t\<bar>"
      unfolding t'_def e_def by (rule binary64_abs_error)
    also have "\<dots> \<le> e * A"
      using assms(1,2) e by (intro mult_left_mono) (simp_all add: A_def)
    finally show ?thesis .
  qed
  have c1: "\<bar>c' - c\<bar> \<le> e * A"
  proof -
    have "\<bar>c' - c\<bar> \<le> e * \<bar>c\<bar>"
      unfolding c'_def e_def by (rule binary64_abs_error)
    also have "\<dots> \<le> e * A"
      using assms(3,4) e by (intro mult_left_mono) (simp_all add: A_def)
    finally show ?thesis .
  qed
  have DA: "\<bar>D\<bar> \<le> A"
    using assms(1-4) by (simp add: D_def A_def abs_le_iff)
  have u1: "\<bar>(t' - c') - D\<bar> \<le> 2 * (e * A)"
    using t1 c1 by (simp add: D_def abs_le_iff)
  have u2: "\<bar>t' - c'\<bar> \<le> 2 * A"
  proof -
    have "e * A \<le> 1 / 2 * A"
      using e A by (intro mult_right_mono) simp_all
    with u1 DA show ?thesis
      by (simp add: abs_le_iff)
  qed
  have d1: "\<bar>D' - (t' - c')\<bar> \<le> 2 * (e * A)"
  proof -
    have "\<bar>D' - (t' - c')\<bar> \<le> e * \<bar>t' - c'\<bar>"
      unfolding D'_def e_def by (rule binary64_abs_error)
    also have "\<dots> \<le> e * (2 * A)"
      using u2 e by (intro mult_left_mono) simp_all
    finally show ?thesis by simp
  qed
  have D1: "\<bar>D' - D\<bar> \<le> 4 * (e * A)"
    using d1 u1 by (simp add: abs_le_iff)
  have D2: "\<bar>D'\<bar> \<le> 2 * A"
  proof -
    have "4 * (e * A) \<le> 4 * (1 / 4 * A)"
      using A by (intro mult_left_mono mult_right_mono) (simp_all add: e_def eps64_def)
    with D1 DA show ?thesis
      by (simp add: abs_le_iff)
  qed
  have q: "1 / 30 \<le> q"
  proof -
    from assms(5) have "1 \<le> d" by simp
    then have "(1::rat) \<le> of_int d" by simp
    then show ?thesis by (simp add: q_def)
  qed
  then have q0: "0 < q" by simp
  have q1: "\<bar>q' - q\<bar> \<le> e * q"
    using binary64_abs_error [of q] q0 by (simp add: q'_def e_def)
  have q2: "q / 2 \<le> q'"
  proof -
    have "e * q \<le> 1 / 2 * q"
      using e q0 by (intro mult_right_mono) simp_all
    with q1 show ?thesis
      by (simp add: abs_le_iff)
  qed
  with q0 have q'0: "0 < q'" by simp
  have p0: "0 < p"
    using q'0 by (simp add: p_def)
  have p60: "p \<le> 60"
  proof -
    have "1 / 60 \<le> q'"
      using q q2 by simp
    with q'0 show ?thesis
      by (simp add: p_def field_simps)
  qed
  have pq: "\<bar>p - 1 / q\<bar> \<le> 60 * e"
  proof -
    have "p - 1 / q = (q - q') * (p / q)"
      using q0 q'0 by (simp add: p_def field_simps)
    then have "\<bar>p - 1 / q\<bar> = \<bar>q' - q\<bar> * (p / q)"
      using p0 q0 by (simp add: abs_mult abs_minus_commute)
    also have "\<dots> \<le> (e * q) * (p / q)"
      using q1 p0 q0 by (intro mult_right_mono) simp_all
    also have "\<dots> = e * p"
      using q0 by simp
    also have "\<dots> \<le> e * 60"
      using p60 e by (intro mult_left_mono) simp_all
    finally show ?thesis by (simp add: mult.commute)
  qed
  define r where "r = D' * p"
  define E where "E = D / q"
  have rE: "\<bar>r - E\<bar> \<le> 300 * (e * A)"
  proof -
    have "r - E = (D' - D) * p + D * (p - 1 / q)"
      by (simp add: r_def E_def algebra_simps)
    then have "\<bar>r - E\<bar> \<le> \<bar>D' - D\<bar> * p + \<bar>D\<bar> * \<bar>p - 1 / q\<bar>"
      using p0 abs_triangle_ineq [of "(D' - D) * p" "D * (p - 1 / q)"]
      by (simp add: abs_mult)
    also have "\<dots> \<le> (4 * (e * A)) * 60 + A * (60 * e)"
      using D1 DA pq p60 p0 eA A e
      by (intro add_mono mult_mono) simp_all
    finally show ?thesis by (simp add: mult.commute)
  qed
  have r2: "\<bar>r\<bar> \<le> 120 * A"
  proof -
    have "\<bar>r\<bar> = \<bar>D'\<bar> * p"
      using p0 by (simp add: r_def abs_mult)
    also have "\<dots> \<le> (2 * A) * 60"
      using D2 p60 p0 A by (intro mult_mono) simp_all
    finally show ?thesis by simp
  qed
  have f: "\<bar>binary64 r - r\<bar> \<le> 120 * (e * A)"
  proof -
    have "\<bar>binary64 r - r\<bar> \<le> e * \<bar>r\<bar>"
      unfolding e_def by (rule binary64_abs_error)
    also have "\<dots> \<le> e * (120 * A)"
      using r2 e by (intro mult_left_mono) simp_all
    finally show ?thesis by simp
  qed
  from f rE have "\<bar>binary64 r - E\<bar> \<le> 420 * (e * A)"
    by (simp add: abs_le_iff)
  with small have "\<bar>binary64 r - E\<bar> < 1 / 100000"
    by simp
  moreover have "divide64 (minus64 (parseFloat64 t) (parseFloat64 c)) (divide64 (of_int d) 30)
      = binary64 r"
    by (simp add: divide64_def minus64_def parseFloat64_def r_def p_def D'_def t'_def c'_def
        q'_def q_def)
  ultimately show ?thesis
    by (simp add: E_def D_def q_def)
qed

lemma b64_1_14: "binary64 (57 / 50) = 5134103575202365 / 4503599627370496"
  by (subst binary64_eval [of "0"]) (simp_all add: round_even_def Let_def floor_numeral_div)

lemma b64_1_14_again: "binary64 (5134103575202365 / 4503599627370496) = 5134103575202365 / 4503599627370496"
  by (subst binary64_eval [of "0"]) (simp_all add: round_even_def Let_def floor_numeral_div)

lemma b64_8_30: "binary64 (4 / 15) = 4803839602528529 / 18014398509481984"
  by (subst binary64_eval [of "-2"]) (simp_all add: round_even_def Let_def floor_numeral_div)

lemma b64_4_275: "binary64 (20536414300809460 / 4803839602528529) = 4813222101752217 / 1125899906842624"
  by (subst binary64_eval [of "2"]) (simp_all add: round_even_def Let_def floor_numeral_div)

lemma b64_2000: "binary64 (2000) = 2000"
  by (subst binary64_eval [of "10"]) (simp_all add: round_even_def Let_def floor_numeral_div)

lemma b64_500: "binary64 (500) = 500"
  by (subst binary64_eval [of "8"]) (simp_all add: round_even_def Let_def floor_numeral_div)

lemma b64_1500: "binary64 (1500) = 1500"
  by (subst binary64_eval [of "10"]) (simp_all add: round_even_def Let_def floor_numeral_div)

lemma b64_3: "binary64 (3) = 3"
  by (subst binary64_eval [of "1"]) (simp_all add: round_even_def Let_def floor_numeral_div)

text \<open>
  C3, as stated, fails: the difference, \<open>days / 30\<close> and the quotient round. For a goal of
  1.14 with nothing saved and 8 days remaining the exact figure is 4.275, while the
  computed one is 4813222101752217 / 2^50 (printed 4.2749999999999995): the card shows
  4.27 a month where the exact value shows 4.28.
\<close>

theorem monthlyNeeded64_not_exact:
  "daysUntilTarget short_trip 0 = 8
   \<and> monthlyNeeded64 short_trip 0 = 4813222101752217 / 1125899906842624
   \<and> (target_amount short_trip - current_amount short_trip)
        / (of_int (daysUntilTarget short_trip 0) / 30) = 171 / 40
   \<and> monthlyNeeded64 short_trip 0
        \<noteq> (target_amount short_trip - current_amount short_trip)
            / (of_int (daysUntilTarget short_trip 0) / 30)
   \<and> toFixed2 (monthlyNeeded64 short_trip 0) = 427 / 100
   \<and> toFixed2 ((target_amount short_trip - current_amount short_trip)
        / (of_int (daysUntilTarget short_trip 0) / 30)) = 428 / 100"
proof -
  have d: "daysUntilTarget short_trip 0 = 8"
    by (simp add: daysUntilTarget_def short_trip_def)
  have m: "monthlyNeeded64 short_trip 0 = 4813222101752217 / 1125899906842624"
    unfolding monthlyNeeded64_def d
    by (simp add: short_trip_def divide64_def minus64_def parseFloat64_def
        binary64_zero b64_1_14 b64_1_14_again b64_8_30 b64_4_275)
  have t: "target_amount short_trip = 57 / 50" "current_amount short_trip = 0"
    by (simp_all add: short_trip_def)
  show ?thesis
    by (simp add: d m t toFixed2_def floor_numeral_div)
qed

text \<open>
  C3, amended. For every goal with target and current amount from 0 to below 10^8 and a
  positive number of days remaining, the computed figure differs from
  (target - current) / (days / 30) by less than 1/100000. The days remaining are the
  whole days from now to the target date rounded up: \<open>d\<close> days exactly when the difference
  is more than \<open>d - 1\<close> and at most \<open>d\<close> days of 86400000 ms. A goal of 2000 with 500 saved
  and 90 days remaining needs exactly 500 a month.
\<close>

theorem monthlyNeeded64_pacing:
  assumes "0 \<le> target_amount goal" and "target_amount goal < 10 ^ 8"
    and "0 \<le> current_amount goal" and "current_amount goal < 10 ^ 8"
  shows "(0 < daysUntilTarget goal now \<longrightarrow>
      \<bar>monthlyNeeded64 goal now
        - (target_amount goal - current_amount goal) / (of_int (daysUntilTarget goal now) / 30)\<bar>
        < 1 / 100000)
   \<and> (daysUntilTarget goal now = d \<longleftrightarrow>
        (d - 1) * 86400000 < target_date goal - now \<and> target_date goal - now \<le> d * 86400000)
   \<and> (target_amount goal = 2000 \<and> current_amount goal = 500 \<and> daysUntilTarget goal now = 90 \<longrightarrow>
        monthlyNeeded64 goal now = 500)"
proof -
  have "\<bar>monthlyNeeded64 goal now
        - (target_amount goal - current_amount goal) / (of_int (daysUntilTarget goal now) / 30)\<bar>
        < 1 / 100000"
    if "0 < daysUntilTarget goal now"
    using pacing_error [OF assms that] that by (simp add: monthlyNeeded64_def)
  moreover have "monthlyNeeded64 goal now = 500"
    if "target_amount goal = 2000 \<and> current_amount goal = 500 \<and> daysUntilTarget goal now = 90"
    using that
    by (simp add: monthlyNeeded64_def divide64_def minus64_def parseFloat64_def
        b64_2000 b64_500 b64_1500 b64_3)
  ultimately show ?thesis
    using daysUntilTarget_iff [of goal now d] by blast
qed

theorem monthlyNeeded64_pacing_witness:
  "monthlyNeeded64 (paris 500) 1 = 500
   \<and> daysUntilTarget (paris 500) 1 = 90
   \<and> \<bar>monthlyNeeded64 short_trip 0 - 171 / 40\<bar> < 1 / 100000"
proof -
  have d: "daysUntilTarget short_trip 0 = 8"
    by (simp add: daysUntilTarget_def short_trip_def)
  have p: "daysUntilTarget (paris 500) 1 = 90"
    using daysUntilTarget_iff [of "paris 500" 1 90] by (simp add: paris_def)
  have t: "target_amount short_trip = 57 / 50" "current_amount short_trip = 0"
    by (simp_all add: short_trip_def)
  from monthlyNeeded64_pacing [of short_trip 0 8]
  have "\<bar>monthlyNeeded64 short_trip 0 - 171 / 40\<bar> < 1 / 100000"
    by (simp add: d t)
  moreover from monthlyNeeded64_pacing [of "paris 500" 1 90] p
  have "monthlyNeeded64 (paris 500) 1 = 500"
    by (simp add: paris_def)
  ultimately show ?thesis
    using p by simp
qed

text \<open>
  C4. For every goal whose days remaining are zero or negative the card has no pacing
  line: no figure is shown, neither zero nor a negative one.
\<close>

theorem pacing_absent_when_due:
  "daysUntilTarget goal now \<le> 0 \<Longrightarrow> pacing (renderGoal goal now) = None"
  by (simp add: renderGoal_def monthlyNeeded_def)

theorem pacing_absent_when_due_witness:
  "daysUntilTarget \<lparr>target_amount = 2000, current_amount = 500, id = ''g1'',
                     goal_name = ''Paris'', target_date = 1000\<rparr> 1000 \<le> 0
   \<and> pacing (renderGoal \<lparr>target_amount = 2000, current_amount = 500, id = ''g1'',
                     goal_name = ''Paris'', target_date = 1000\<rparr> 1000) = None"
proof -
  have d: "daysUntilTarget \<lparr>target_amount = 2000, current_amount = 500, id = ''g1'',
                     goal_name = ''Paris'', target_date = 1000\<rparr> 1000 \<le> 0"
    by (simp add: daysUntilTarget_def)
  from d pacing_absent_when_due [OF d] show ?thesis by simp
qed

text \<open>
  C10. For every goal with days remaining whose current amount has reached or passed
  the target, the computed monthly amount is zero or negative and the card has no pacing
  line.
\<close>

theorem pacing_absent_when_met:
  "0 < daysUntilTarget goal now \<Longrightarrow> target_amount goal \<le> current_amount goal \<Longrightarrow>
     monthlyNeeded goal now \<le> 0 \<and> pacing (renderGoal goal now) = None"
proof -
  assume d: "0 < daysUntilTarget goal now" and met: "target_amount goal \<le> current_amount goal"
  from d have "0 < (of_int (daysUntilTarget goal now) :: rat) / 30"
    by simp
  with met have "(target_amount goal - current_amount goal)
      / (of_int (daysUntilTarget goal now) / 30) \<le> 0"
    by (simp add: divide_le_0_iff)
  with d have "monthlyNeeded goal now \<le> 0"
    by (simp add: monthlyNeeded_def parseFloat_def)
  then show ?thesis
    by (simp add: renderGoal_def)
qed

theorem pacing_absent_when_met_witness:
  "0 < daysUntilTarget \<lparr>target_amount = 2000, current_amount = 2500, id = ''g1'',
                     goal_name = ''Paris'', target_date = 7776000000\<rparr> 0
   \<and> monthlyNeeded \<lparr>target_amount = 2000, current_amount = 2500, id = ''g1'',
                     goal_name = ''Paris'', target_date = 7776000000\<rparr> 0 \<le> 0
   \<and> pacing (renderGoal \<lparr>target_amount = 2000, current_amount = 2500, id = ''g1'',
                     goal_name = ''Paris'', target_date = 7776000000\<rparr> 0) = None"
proof -
  have d: "0 < daysUntilTarget \<lparr>target_amount = 2000, current_amount = 2500, id = ''g1'',
                     goal_name = ''Paris'', target_date = 7776000000\<rparr> 0"
    by (simp add: daysUntilTarget_def)
  have m: "target_amount \<lparr>target_amount = 2000, current_amount = 2500, id = ''g1'',
                     goal_name = ''Paris'', target_date = 7776000000\<rparr>
      \<le> current_amount \<lparr>target_amount = 2000, current_amount = 2500, id = ''g1'',
                     goal_name = ''Paris'', target_date = 7776000000\<rparr>"
    by simp
  from d pacing_absent_when_met [OF d m] show ?thesis by simp
qed

section \<open>Contributions\<close>

lemma find_id_sorted:
  assumes "distinct (map id rows)"
  shows "find (\<lambda>g. id g = i) (sort_key target_date rows) = find (\<lambda>g. id g = i) rows"
proof (cases "find (\<lambda>g. id g = i) rows")
  case None
  then have "\<not> (\<exists>g. g \<in> set rows \<and> id g = i)"
    by (simp add: find_None_iff)
  then have "find (\<lambda>g. id g = i) (sort_key target_date rows) = None"
    by (simp add: find_None_iff)
  with None show ?thesis by simp
next
  case (Some g)
  then have g: "g \<in> set rows" "id g = i"
    by (auto simp: find_Some_iff)
  from assms have inj: "inj_on id (set rows)"
    by (simp add: distinct_map)
  have "\<forall>h \<in> set (sort_key target_date rows). id h = i \<longrightarrow> h = g"
  proof (intro ballI impI)
    fix h
    assume "h \<in> set (sort_key target_date rows)" and "id h = i"
    then have "h \<in> set rows" and "id h = id g"
      using g(2) by simp_all
    with inj g(1) show "h = g"
      by (simp add: inj_on_def)
  qed
  moreover from g(1) have "g \<in> set (sort_key target_date rows)" by simp
  ultimately have "find (\<lambda>g. id g = i) (sort_key target_date rows) = Some g"
    using g(2) by (intro find_unique)
  with Some show ?thesis by (simp only:)
qed

lemma find_id_updated:
  "find (\<lambda>g. id g = i) (map (\<lambda>g. if id g = i then g\<lparr>current_amount := v\<rparr> else g) rows) =
     map_option (\<lambda>g. g\<lparr>current_amount := v\<rparr>) (find (\<lambda>g. id g = i) rows)"
  by (induction rows) simp_all

lemma map_id_updated:
  "map id (map (\<lambda>g. if id g = i then g\<lparr>current_amount := v\<rparr> else g) rows) = map id rows"
  by (induction rows) simp_all


lemma clickAdd_request:
  assumes "shown w" and "amountOf i w = Some a"
  shows "clickAdd i input w = handleUpdateProgress i (a + valueOrZero input) w"
    and "i \<in> set (map id (savings_goals w))"
    and "\<exists>g. find (\<lambda>g. id g = i) (savings_goals w) = Some g \<and> current_amount g = a"
proof -
  from assms(1) have sync: "savingsGoals w = sort_key target_date (savings_goals w)"
    and dist: "distinct (map id (savings_goals w))"
    by (simp_all add: shown_def)
  from assms(2) obtain g where g: "find (\<lambda>g. id g = i) (savings_goals w) = Some g"
    and a: "current_amount g = a"
    by (auto simp: amountOf_def)
  from g have idg: "id g = i" and mem: "g \<in> set (savings_goals w)"
    by (auto simp: find_Some_iff)
  from g sync dist have "find (\<lambda>g. id g = i) (savingsGoals w) = Some g"
    by (simp add: find_id_sorted)
  then show "clickAdd i input w = handleUpdateProgress i (a + valueOrZero input) w"
    by (simp add: clickAdd_def addAmount_def parseFloat_def a idg)
  from mem idg show "i \<in> set (map id (savings_goals w))"
    by auto
  from g a show "\<exists>g. find (\<lambda>g. id g = i) (savings_goals w) = Some g \<and> current_amount g = a"
    by blast
qed




subsection \<open>The decimal the table receives\<close>

lemma with_digits_reads: "with_digits k x = Some d \<Longrightarrow> binary64 d = x"
  by (auto simp: with_digits_def Let_def split: if_splits)

lemma shortest_from_reads: "shortest_from ks x = x \<or> binary64 (shortest_from ks x) = x"
  by (induction ks) (auto split: option.splits dest: with_digits_reads)

lemma reads_back_error:
  assumes "binary64 d = x"
  shows "\<bar>d - x\<bar> \<le> 2 * eps64 * \<bar>x\<bar>"
proof -
  have e: "\<bar>x - d\<bar> \<le> eps64 * \<bar>d\<bar>"
    using binary64_abs_error [of d] assms by simp
  have half: "eps64 * \<bar>d\<bar> \<le> 1 / 2 * \<bar>d\<bar>"
    by (intro mult_right_mono) (simp_all add: eps64_def)
  have "\<bar>d\<bar> \<le> \<bar>x\<bar> + \<bar>x - d\<bar>"
    by simp
  with e half have "\<bar>d\<bar> \<le> 2 * \<bar>x\<bar>"
    by simp
  then have "eps64 * \<bar>d\<bar> \<le> eps64 * (2 * \<bar>x\<bar>)"
    using eps64_range(1) by (intro mult_left_mono) simp_all
  with e show ?thesis
    by (simp add: abs_minus_commute)
qed

lemma shortest_from_error: "\<bar>shortest_from ks x - x\<bar> \<le> 2 * eps64 * \<bar>x\<bar>"
proof -
  from shortest_from_reads [of ks x] show ?thesis
  proof
    assume "shortest_from ks x = x"
    then show ?thesis
      using eps64_range(1) by simp
  next
    assume "binary64 (shortest_from ks x) = x"
    then show ?thesis
      by (rule reads_back_error)
  qed
qed

lemma toString64_error: "\<bar>toString64 x - x\<bar> \<le> 2 * eps64 * \<bar>x\<bar>"
proof -
  consider "x = 0" | "x < 0" | "0 < x"
    by linarith
  then show ?thesis
  proof cases
    case 1
    then show ?thesis by (simp add: toString64_def)
  next
    case 2
    have "\<bar>toString64 x - x\<bar>
        = \<bar>shortest_from [1, 2, 3, 4, 5, 6, 7, 8, 9, 10, 11, 12, 13, 14, 15, 16, 17] (- x) - (- x)\<bar>"
      using 2 by (simp add: toString64_def abs_minus_commute)
    also have "\<dots> \<le> 2 * eps64 * \<bar>- x\<bar>"
      by (rule shortest_from_error)
    finally show ?thesis by simp
  next
    case 3
    then have "toString64 x = shortest_from [1, 2, 3, 4, 5, 6, 7, 8, 9, 10, 11, 12, 13, 14, 15, 16, 17] x"
      by (simp add: toString64_def)
    then show ?thesis
      using shortest_from_error [of "[1, 2, 3, 4, 5, 6, 7, 8, 9, 10, 11, 12, 13, 14, 15, 16, 17]" x]
      by simp
  qed
qed

lemma to_cents:
  fixes s c :: rat
  assumes "100 * c \<in> \<int>" and "\<bar>s - c\<bar> < 1 / 200"
  shows "(if s < 0 then - (of_int \<lfloor>100 * (- s) + 1 / 2\<rfloor> / 100)
          else of_int \<lfloor>100 * s + 1 / 2\<rfloor> / 100) = c"
proof -
  from assms(1) obtain z where z: "100 * c = of_int z"
    by (auto elim: Ints_cases)
  have lo: "100 * c - 1 / 2 < 100 * s" and hi: "100 * s < 100 * c + 1 / 2"
    using assms(2) by linarith+
  show ?thesis
  proof (cases "s < 0")
    case True
    have "\<lfloor>100 * (- s) + 1 / 2\<rfloor> = - z"
    proof (rule floor_unique)
      show "of_int (- z) \<le> 100 * (- s) + 1 / 2"
        using hi z by simp
      show "100 * (- s) + 1 / 2 < of_int (- z) + 1"
        using lo z by simp
    qed
    then have "- (of_int \<lfloor>100 * (- s) + 1 / 2\<rfloor> / 100) = (100 * c) / 100"
      by (simp add: z)
    with True show ?thesis by simp
  next
    case False
    have "\<lfloor>100 * s + 1 / 2\<rfloor> = z"
    proof (rule floor_unique)
      show "of_int z \<le> 100 * s + 1 / 2"
        using lo z by simp
      show "100 * s + 1 / 2 < of_int z + 1"
        using hi z by simp
    qed
    then have "of_int \<lfloor>100 * s + 1 / 2\<rfloor> / 100 = (100 * c) / 100"
      by (simp only: z)
    with False show ?thesis by simp
  qed
qed

lemma numeric_10_2_near:
  fixes s c :: rat
  assumes "100 * c \<in> \<int>" and "\<bar>s - c\<bar> < 1 / 200"
  shows "numeric_10_2 s = (if 10 ^ 8 \<le> \<bar>c\<bar> then Inl numeric_overflow else Inr c)"
  unfolding numeric_10_2_def to_cents [OF assms] by (simp add: Let_def)

lemma sent_error:
  assumes "\<bar>a\<bar> < 10 ^ 8" and "\<bar>v\<bar> < 10 ^ 8"
  shows "\<bar>toString64 (plus64 (parseFloat64 a) (parseFloat64 v)) - (a + v)\<bar> < 1 / 200"
proof -
  define e where "e = eps64"
  define A :: rat where "A = 10 ^ 8"
  define a' where "a' = binary64 a"
  define v' where "v' = binary64 v"
  define x where "x = binary64 (a' + v')"
  have e: "0 < e" "e \<le> 1 / 2" and A: "0 < A"
    by (simp_all add: e_def eps64_def A_def)
  have small: "16 * (e * A) < 1 / 200"
    by (simp add: e_def eps64_def A_def)
  have eA: "e * A \<le> 1 / 2 * A"
    using e A by (intro mult_right_mono) simp_all
  have a1: "\<bar>a' - a\<bar> \<le> e * A"
  proof -
    have "\<bar>a' - a\<bar> \<le> e * \<bar>a\<bar>"
      unfolding a'_def e_def by (rule binary64_abs_error)
    also have "\<dots> \<le> e * A"
      using assms(1) e by (intro mult_left_mono) (simp_all add: A_def)
    finally show ?thesis .
  qed
  have v1: "\<bar>v' - v\<bar> \<le> e * A"
  proof -
    have "\<bar>v' - v\<bar> \<le> e * \<bar>v\<bar>"
      unfolding v'_def e_def by (rule binary64_abs_error)
    also have "\<dots> \<le> e * A"
      using assms(2) e by (intro mult_left_mono) (simp_all add: A_def)
    finally show ?thesis .
  qed
  have s1: "\<bar>(a' + v') - (a + v)\<bar> \<le> 2 * (e * A)"
    using a1 v1 by (simp add: abs_le_iff)
  have s2: "\<bar>a' + v'\<bar> \<le> 3 * A"
  proof -
    from s1 eA have "\<bar>(a' + v') - (a + v)\<bar> \<le> A"
      by linarith
    moreover from assms have "\<bar>a + v\<bar> \<le> 2 * A"
      unfolding A_def by linarith
    ultimately show ?thesis
      by linarith
  qed
  have x1: "\<bar>x - (a' + v')\<bar> \<le> 3 * (e * A)"
  proof -
    have "\<bar>x - (a' + v')\<bar> \<le> e * \<bar>a' + v'\<bar>"
      unfolding x_def e_def by (rule binary64_abs_error)
    also have "\<dots> \<le> e * (3 * A)"
      using s2 e by (intro mult_left_mono) simp_all
    finally show ?thesis by simp
  qed
  have x2: "\<bar>x\<bar> \<le> 5 * A"
    using x1 s2 eA by linarith
  have d1: "\<bar>toString64 x - x\<bar> \<le> 10 * (e * A)"
  proof -
    have "\<bar>toString64 x - x\<bar> \<le> 2 * e * \<bar>x\<bar>"
      unfolding e_def by (rule toString64_error)
    also have "\<dots> \<le> 2 * e * (5 * A)"
      using x2 e by (intro mult_left_mono) simp_all
    finally show ?thesis by simp
  qed
  from d1 x1 s1 have "\<bar>toString64 x - (a + v)\<bar> \<le> 15 * (e * A)"
    by linarith
  moreover have "0 \<le> e * A"
    using e A by simp
  ultimately have "\<bar>toString64 x - (a + v)\<bar> < 1 / 200"
    using small by linarith
  then show ?thesis
    by (simp add: x_def a'_def v'_def plus64_def parseFloat64_def)
qed

lemma sent_cents:
  assumes "100 * a \<in> \<int>" and "100 * valueOrZero input \<in> \<int>"
    and "\<bar>a\<bar> < 10 ^ 8" and "\<bar>valueOrZero input\<bar> < 10 ^ 8"
  shows "numeric_10_2 (sent a input) =
     (if 10 ^ 8 \<le> \<bar>a + valueOrZero input\<bar> then Inl numeric_overflow
      else Inr (a + valueOrZero input))"
proof -
  have "100 * (a + valueOrZero input) \<in> \<int>"
    using assms(1,2) by (simp add: distrib_left)
  moreover have "\<bar>sent a input - (a + valueOrZero input)\<bar> < 1 / 200"
    unfolding sent_def using assms(3,4) by (rule sent_error)
  ultimately show ?thesis
    by (rule numeric_10_2_near)
qed

subsection \<open>The Add button\<close>

lemma clickAdd64_request:
  assumes "shown w" and "amountOf i w = Some a"
  shows "clickAdd64 i input w = handleUpdateProgress i (sent a input) w"
    and "i \<in> set (map id (savings_goals w))"
    and "\<exists>g. find (\<lambda>g. id g = i) (savings_goals w) = Some g \<and> current_amount g = a"
proof -
  from assms(1) have sync: "savingsGoals w = sort_key target_date (savings_goals w)"
    and dist: "distinct (map id (savings_goals w))"
    by (simp_all add: shown_def)
  from assms(2) obtain g where g: "find (\<lambda>g. id g = i) (savings_goals w) = Some g"
    and a: "current_amount g = a"
    by (auto simp: amountOf_def)
  from g have idg: "id g = i" and mem: "g \<in> set (savings_goals w)"
    by (auto simp: find_Some_iff)
  from g sync dist have "find (\<lambda>g. id g = i) (savingsGoals w) = Some g"
    by (simp add: find_id_sorted)
  then show "clickAdd64 i input w = handleUpdateProgress i (sent a input) w"
    by (simp add: clickAdd64_def addAmount64_def sent_def a idg)
  from mem idg show "i \<in> set (map id (savings_goals w))"
    by auto
  from g a show "\<exists>g. find (\<lambda>g. id g = i) (savings_goals w) = Some g \<and> current_amount g = a"
    by blast
qed

lemma clickAdd64_stored:
  assumes "shown w" and "amountOf i w = Some a"
    and "numeric_10_2 (sent a input) = Inr r" and "0 \<le> r"
  shows "amountOf i (clickAdd64 i input w) = Some r"
    and "shown (clickAdd64 i input w)"
    and "toasts (clickAdd64 i input w) =
           toasts w @ [\<lparr>title = ''Success'', description = ''Progress updated.''\<rparr>]"
proof -
  note click = clickAdd64_request(1) [OF assms(1,2)]
  from clickAdd64_request(3) [OF assms(1,2)]
  obtain g where g: "find (\<lambda>g. id g = i) (savings_goals w) = Some g"
    by blast
  from assms(1) have dist: "distinct (map id (savings_goals w))"
    by (simp add: shown_def)
  from assms(3,4) have upd: "update_current_amount i (sent a input) (savings_goals w) =
      Inr (map (\<lambda>g. if id g = i then g\<lparr>current_amount := r\<rparr> else g) (savings_goals w))"
    by (simp add: update_current_amount_def)
  show "amountOf i (clickAdd64 i input w) = Some r"
    by (simp add: click handleUpdateProgress_def parseFloat_def upd fetchSavingsGoals_def
        amountOf_def find_id_updated g)
  show "shown (clickAdd64 i input w)"
    using dist map_id_updated [of i r "savings_goals w"]
    by (simp add: click handleUpdateProgress_def parseFloat_def upd fetchSavingsGoals_def
        shown_def del: map_map)
  show "toasts (clickAdd64 i input w) =
      toasts w @ [\<lparr>title = ''Success'', description = ''Progress updated.''\<rparr>]"
    by (simp add: click handleUpdateProgress_def parseFloat_def upd fetchSavingsGoals_def)
qed

lemma clickAdd64_refused:
  assumes "shown w" and "amountOf i w = Some a"
    and "numeric_10_2 (sent a input) = Inr r" and "r < 0"
  shows "savings_goals (clickAdd64 i input w) = savings_goals w"
    and "toasts (clickAdd64 i input w) =
           toasts w @ [\<lparr>title = ''Error'', description = check_violation\<rparr>]"
proof -
  note click = clickAdd64_request(1) [OF assms(1,2)]
  from clickAdd64_request(2) [OF assms(1,2)] assms(3,4)
  have upd: "update_current_amount i (sent a input) (savings_goals w) = Inl check_violation"
    by (simp add: update_current_amount_def)
  show "savings_goals (clickAdd64 i input w) = savings_goals w"
    by (simp add: click handleUpdateProgress_def parseFloat_def upd)
  show "toasts (clickAdd64 i input w) =
      toasts w @ [\<lparr>title = ''Error'', description = check_violation\<rparr>]"
    by (simp add: click handleUpdateProgress_def parseFloat_def upd)
qed

lemma clickAdd64_overflow:
  assumes "shown w" and "amountOf i w = Some a"
    and "numeric_10_2 (sent a input) = Inl message"
  shows "savings_goals (clickAdd64 i input w) = savings_goals w"
    and "toasts (clickAdd64 i input w) = toasts w @ [\<lparr>title = ''Error'', description = message\<rparr>]"
proof -
  note click = clickAdd64_request(1) [OF assms(1,2)]
  from assms(3)
  have upd: "update_current_amount i (sent a input) (savings_goals w) = Inl message"
    by (simp add: update_current_amount_def)
  show "savings_goals (clickAdd64 i input w) = savings_goals w"
    by (simp add: click handleUpdateProgress_def parseFloat_def upd)
  show "toasts (clickAdd64 i input w) = toasts w @ [\<lparr>title = ''Error'', description = message\<rparr>]"
    by (simp add: click handleUpdateProgress_def parseFloat_def upd)
qed

text \<open>
  C9, as stated, fails: a contribution of -50 to a goal that holds 100 is not rejected.
  The update is issued, 50 is stored and the page reports success; with the field left
  empty the update is issued too, and reported as a success.
\<close>

theorem contribution64_negative_accepted:
  "(-50 :: rat) \<le> 0
   \<and> amountOf ''g1'' (page_of [paris 100]) = Some 100
   \<and> amountOf ''g1'' (clickAdd64 ''g1'' (Some (-50)) (page_of [paris 100])) = Some 50
   \<and> toasts (clickAdd64 ''g1'' (Some (-50)) (page_of [paris 100]))
       = [\<lparr>title = ''Success'', description = ''Progress updated.''\<rparr>]
   \<and> toasts (clickAdd64 ''g1'' None (page_of [paris 100]))
       = [\<lparr>title = ''Success'', description = ''Progress updated.''\<rparr>]"
proof -
  have sh: "shown (page_of [paris 100])"
    by (simp add: shown_def page_of_def)
  have am: "amountOf ''g1'' (page_of [paris 100]) = Some 100"
    by (simp add: amountOf_def page_of_def paris_def)
  have no: "toasts (page_of [paris 100]) = []"
    by (simp add: page_of_def)
  have "numeric_10_2 (sent 100 (Some (-50))) = Inr 50"
    using sent_cents [of 100 "Some (-50)"] by (simp add: valueOrZero_def)
  from clickAdd64_stored(1,3) [OF sh am this]
  have neg: "amountOf ''g1'' (clickAdd64 ''g1'' (Some (-50)) (page_of [paris 100])) = Some 50"
    "toasts (clickAdd64 ''g1'' (Some (-50)) (page_of [paris 100]))
       = [\<lparr>title = ''Success'', description = ''Progress updated.''\<rparr>]"
    by (simp_all add: no)
  have "numeric_10_2 (sent 100 None) = Inr 100"
    using sent_cents [of 100 None] by (simp add: valueOrZero_def)
  from clickAdd64_stored(3) [OF sh am this]
  have "toasts (clickAdd64 ''g1'' None (page_of [paris 100]))
       = [\<lparr>title = ''Success'', description = ''Progress updated.''\<rparr>]"
    by (simp add: no)
  with neg am show ?thesis
    by simp
qed

text \<open>
  C9, amended. The page does not validate a contribution: an empty field counts as 0,
  and for every amount it asks the table to store the binary64 sum of the old amount and
  the contribution, written as its shortest decimal. The table takes that decimal to two
  decimals. When the result is not negative it is stored and success is reported; when
  it is negative the table's check refuses the update, and when it does not fit the
  column the write fails: nothing is stored then and the error is shown. For an old
  amount and a contribution in cents, each below 10^8 in absolute value, the result is
  their exact sum, or the overflow when that sum is 10^8 or more in absolute value.
\<close>

theorem contribution64_checked_by_table:
  assumes "shown w" and "amountOf i w = Some a"
  shows "clickAdd64 i input w = handleUpdateProgress i (sent a input) w
       \<and> (\<forall>r. numeric_10_2 (sent a input) = Inr r \<and> 0 \<le> r \<longrightarrow>
            amountOf i (clickAdd64 i input w) = Some r
            \<and> toasts (clickAdd64 i input w) =
                toasts w @ [\<lparr>title = ''Success'', description = ''Progress updated.''\<rparr>])
       \<and> (\<forall>r. numeric_10_2 (sent a input) = Inr r \<and> r < 0 \<longrightarrow>
            savings_goals (clickAdd64 i input w) = savings_goals w
            \<and> toasts (clickAdd64 i input w) =
                toasts w @ [\<lparr>title = ''Error'', description = check_violation\<rparr>])
       \<and> (\<forall>message. numeric_10_2 (sent a input) = Inl message \<longrightarrow>
            savings_goals (clickAdd64 i input w) = savings_goals w
            \<and> toasts (clickAdd64 i input w) =
                toasts w @ [\<lparr>title = ''Error'', description = message\<rparr>])
       \<and> (100 * a \<in> \<int> \<and> 100 * valueOrZero input \<in> \<int>
            \<and> \<bar>a\<bar> < 10 ^ 8 \<and> \<bar>valueOrZero input\<bar> < 10 ^ 8 \<longrightarrow>
            numeric_10_2 (sent a input) =
              (if 10 ^ 8 \<le> \<bar>a + valueOrZero input\<bar> then Inl numeric_overflow
               else Inr (a + valueOrZero input)))
       \<and> valueOrZero None = 0"
  using clickAdd64_request(1) [OF assms] clickAdd64_stored(1,3) [OF assms]
    clickAdd64_refused [OF assms] clickAdd64_overflow [OF assms] sent_cents [of a input]
  by (simp add: valueOrZero_def)

theorem contribution64_checked_by_table_witness:
  \<open>savings_goals (clickAdd64 ''g1'' (Some (-150)) (page_of [paris 100])) = [paris 100]
   \<and> toasts (clickAdd64 ''g1'' (Some (-150)) (page_of [paris 100]))
       = [\<lparr>title = ''Error'',
           description = ''new row for relation "savings_goals" violates check constraint "savings_goals_current_amount_check"''\<rparr>]
   \<and> amountOf ''g1'' (clickAdd64 ''g1'' None (page_of [paris 100])) = Some 100
   \<and> toasts (clickAdd64 ''g1'' None (page_of [paris 100]))
       = [\<lparr>title = ''Success'', description = ''Progress updated.''\<rparr>]
   \<and> savings_goals (clickAdd64 ''g1'' (Some 99999900) (page_of [paris 100])) = [paris 100]
   \<and> toasts (clickAdd64 ''g1'' (Some 99999900) (page_of [paris 100]))
       = [\<lparr>title = ''Error'', description = ''numeric field overflow''\<rparr>]\<close>
proof -
  have sh: "shown (page_of [paris 100])"
    by (simp add: shown_def page_of_def)
  have am: "amountOf ''g1'' (page_of [paris 100]) = Some 100"
    by (simp add: amountOf_def page_of_def paris_def)
  have v: "valueOrZero (Some (- 150)) = - 150" "valueOrZero None = 0"
    "valueOrZero (Some 99999900) = 99999900"
    by (simp_all add: valueOrZero_def)
  have p: "savings_goals (page_of [paris 100]) = [paris 100]" "toasts (page_of [paris 100]) = []"
    by (simp_all add: page_of_def)
  from contribution64_checked_by_table [OF sh am, of "Some (-150)", THEN conjunct2]
  have one: "savings_goals (clickAdd64 ''g1'' (Some (-150)) (page_of [paris 100])) = [paris 100]
     \<and> toasts (clickAdd64 ''g1'' (Some (-150)) (page_of [paris 100]))
         = [\<lparr>title = ''Error'', description = check_violation\<rparr>]"
    by (auto simp: v p)
  from contribution64_checked_by_table [OF sh am, of None, THEN conjunct2]
  have two: "amountOf ''g1'' (clickAdd64 ''g1'' None (page_of [paris 100])) = Some 100
     \<and> toasts (clickAdd64 ''g1'' None (page_of [paris 100]))
         = [\<lparr>title = ''Success'', description = ''Progress updated.''\<rparr>]"
    by (auto simp: v p)
  from contribution64_checked_by_table [OF sh am, of "Some 99999900", THEN conjunct2]
  have three: "savings_goals (clickAdd64 ''g1'' (Some 99999900) (page_of [paris 100])) = [paris 100]
     \<and> toasts (clickAdd64 ''g1'' (Some 99999900) (page_of [paris 100]))
         = [\<lparr>title = ''Error'', description = numeric_overflow\<rparr>]"
    by (auto simp: v p)
  from one two three show ?thesis
    by (simp only: check_violation_def numeric_overflow_def)
qed

section \<open>A failed advice request\<close>

lemma getRecommendations_non_2xx:
  assumes "\<not> ok (status (serve d \<lparr>method = ''POST'', json = Inr (orNull q),
                                    authorization = Some (''Bearer '' @ token)\<rparr>))"
  shows "toasted (getRecommendations d token q c)
           = toasted c @ [\<lparr>title = ''Error'', description = non_2xx\<rparr>]
       \<and> recommendation (getRecommendations d token q c) = recommendation c"
  using assms by (simp add: getRecommendations_def invoke_def caught_def non_2xx_def Let_def)

lemma serve_gateway_failure:
  assumes "getUser d (replace_first ''Bearer '' (''Bearer '' @ token)) = Some user"
    and "LOVABLE_API_KEY d = Some key" and "key \<noteq> []"
    and "gateway d (userPrompt d b user) = Reply st content" and "\<not> ok st"
  shows "serve d \<lparr>method = ''POST'', json = Inr b, authorization = Some (''Bearer '' @ token)\<rparr>
     = (if st = 429
        then \<lparr>status = 429, body = Error ''Rate limit exceeded. Please try again later.''\<rparr>
        else if st = 402
        then \<lparr>status = 402,
               body = Error ''Payment required. Please add credits to your Lovable AI workspace.''\<rparr>
        else \<lparr>status = 500, body = Error ''AI gateway error''\<rparr>)"
  using assms
  by (simp add: serve_def attempt_def rate_limited_def payment_required_def)

text \<open>
  C7. The handler answers the failures with responses of their own: 429 and 402 with
  their message for a gateway that replies 429 or 402, 500 with the message
  "AI gateway error" for another failure of the gateway, and 500 with "Unauthorized"
  for a caller whose token is rejected. The page does not show them. Each of the four
  responses has a status outside 200-299, so the call returns its one error, the page
  throws it before it reads \<open>data.error\<close>, and the user sees the same toast in all four
  cases; only a success shows something else.
\<close>

theorem advice_failures_collapsed:
  "serve (one_user (Reply 429 (Inr None))) (post ''good'')
     = \<lparr>status = 429, body = Error ''Rate limit exceeded. Please try again later.''\<rparr>
   \<and> serve (one_user (Reply 402 (Inr None))) (post ''good'')
     = \<lparr>status = 402,
         body = Error ''Payment required. Please add credits to your Lovable AI workspace.''\<rparr>
   \<and> serve (one_user (Reply 503 (Inr None))) (post ''good'')
     = \<lparr>status = 500, body = Error ''AI gateway error''\<rparr>
   \<and> serve (one_user (Reply 200 (Inr (Some ''Fly midweek.'')))) (post ''expired'')
     = \<lparr>status = 500, body = Error ''Unauthorized''\<rparr>
   \<and> toasted (getRecommendations (one_user (Reply 429 (Inr None))) ''good'' None opened)
     = [\<lparr>title = ''Error'', description = ''Edge Function returned a non-2xx status code''\<rparr>]
   \<and> toasted (getRecommendations (one_user (Reply 402 (Inr None))) ''good'' None opened)
     = [\<lparr>title = ''Error'', description = ''Edge Function returned a non-2xx status code''\<rparr>]
   \<and> toasted (getRecommendations (one_user (Reply 503 (Inr None))) ''good'' None opened)
     = [\<lparr>title = ''Error'', description = ''Edge Function returned a non-2xx status code''\<rparr>]
   \<and> toasted (getRecommendations (one_user (Reply 200 (Inr (Some ''Fly midweek.''))))
        ''expired'' None opened)
     = [\<lparr>title = ''Error'', description = ''Edge Function returned a non-2xx status code''\<rparr>]
   \<and> getRecommendations (one_user (Reply 200 (Inr (Some ''Fly midweek.'')))) ''good'' None opened
     = \<lparr>loading = False, recommendation = Some ''Fly midweek.'',
         toasted = [\<lparr>title = ''Success'', description = ''AI recommendations generated!''\<rparr>]\<rparr>"
  by (simp add: getRecommendations_def invoke_def caught_def non_2xx_def orNull_def opened_def
      serve_def attempt_def one_user_def post_def ok_def rate_limited_def payment_required_def
      userPrompt_def Let_def)

section \<open>The two readings\<close>

text \<open>
  The rounding is monotone and keeps the sign. So a card without a pacing line in the
  exact reading has none with the rounding written out: the guard \<open>monthlyNeeded > 0\<close>
  fails in both. And for an old amount and a contribution in cents, each below 10^8 in
  absolute value, the Add button does the same in both readings.
\<close>

lemma round_even_between: "\<lfloor>q\<rfloor> \<le> round_even q" "round_even q \<le> \<lfloor>q\<rfloor> + 1"
  by (simp_all add: round_even_def Let_def)

lemma round_even_mono:
  assumes "q \<le> q'"
  shows "round_even q \<le> round_even q'"
proof (cases "\<lfloor>q\<rfloor> = \<lfloor>q'\<rfloor>")
  case True
  with assms show ?thesis
    by (auto simp: round_even_def Let_def)
next
  case False
  with assms have "\<lfloor>q\<rfloor> + 1 \<le> \<lfloor>q'\<rfloor>"
    using floor_mono [OF assms] by linarith
  with round_even_between(2) [of q] round_even_between(1) [of q'] show ?thesis
    by linarith
qed

lemma round_even_of_int: "round_even (of_int n) = n"
  by (simp add: round_even_def Let_def)

lemma round_even_minus: "round_even (- q) = - round_even q"
proof (cases "q \<in> \<int>")
  case True
  then obtain n where "q = of_int n"
    by (auto elim: Ints_cases)
  then have "- q = of_int (- n)"
    by simp
  then show ?thesis
    unfolding \<open>q = of_int n\<close> by (simp only: round_even_of_int)
next
  case False
  then have "q \<noteq> of_int \<lfloor>q\<rfloor>"
    by (metis Ints_of_int)
  then have f: "\<lfloor>- q\<rfloor> = - \<lfloor>q\<rfloor> - 1"
    by (simp add: floor_minus ceiling_altdef)
  have lo: "of_int \<lfloor>q\<rfloor> \<le> q" and hi: "q < of_int \<lfloor>q\<rfloor> + 1"
    by linarith+
  show ?thesis
    unfolding round_even_def Let_def f
    by (auto simp: algebra_simps)
qed

lemma binade_minus: "binade (- x) = binade x"
  by (simp add: binade_def)

lemma binary64_minus: "binary64 (- x) = - binary64 x"
  by (simp add: binary64_def binade_minus Let_def round_even_minus)

lemma binary64_nonneg: "0 \<le> x \<Longrightarrow> 0 \<le> binary64 x"
proof -
  assume x: "0 \<le> x"
  have "0 \<le> (1 - eps64) * x"
    using x eps64_range by (intro mult_nonneg_nonneg) simp_all
  with binary64_bounds(1) [OF x] show ?thesis
    by simp
qed

lemma binary64_pos: "0 < x \<Longrightarrow> 0 < binary64 x"
proof -
  assume x: "0 < x"
  have "0 < (1 - eps64) * x"
    using x by (intro mult_pos_pos) (simp_all add: eps64_def)
  with binary64_bounds(1) [of x] x show ?thesis
    by simp
qed

lemma binary64_nonpos: "x \<le> 0 \<Longrightarrow> binary64 x \<le> 0"
  using binary64_nonneg [of "- x"] by (simp add: binary64_minus)

lemma binary64_pos_mono:
  assumes "0 < x" and "x \<le> y"
  shows "binary64 x \<le> binary64 y"
proof -
  from assms have y: "0 < y" by simp
  from assms(1) y have nz: "x \<noteq> 0" "y \<noteq> 0" by simp_all
  note bx = binade_bounds [OF nz(1)]
  note by' = binade_bounds [OF nz(2)]
  define a where "a = binade x"
  define b where "b = binade y"
  have fx: "binary64 x = of_int (round_even (x / 2 powi (a - 52))) * 2 powi (a - 52)"
    using nz(1) by (simp add: binary64_def Let_def a_def)
  have fy: "binary64 y = of_int (round_even (y / 2 powi (b - 52))) * 2 powi (b - 52)"
    using nz(2) by (simp add: binary64_def Let_def b_def)
  have less: "i < j" if "(2::rat) powi i < 2 powi j" for i j :: int
  proof (rule ccontr)
    assume "\<not> i < j"
    then have "(2::rat) powi j \<le> 2 powi i"
      by (intro power_int_increasing) simp_all
    with that show False by simp
  qed
  have "(2::rat) powi a \<le> x"
    using bx(1) assms(1) by (simp add: a_def)
  also note assms(2)
  also have "y < 2 powi (b + 1)"
    using by'(2) y by (simp add: b_def)
  finally have "a < b + 1"
    by (rule less)
  then consider "a = b" | "a + 1 \<le> b"
    by linarith
  then show ?thesis
  proof cases
    case 1
    have "x / 2 powi (a - 52) \<le> y / 2 powi (a - 52)"
      using assms(2) by (intro divide_right_mono) simp_all
    then have "round_even (x / 2 powi (a - 52)) \<le> round_even (y / 2 powi (a - 52))"
      by (rule round_even_mono)
    then have "(of_int (round_even (x / 2 powi (a - 52))) :: rat)
        \<le> of_int (round_even (y / 2 powi (a - 52)))"
      by (simp only: of_int_le_iff)
    then show ?thesis
      unfolding fx fy 1 [symmetric] by (intro mult_right_mono) simp_all
  next
    case 2
    have sx: "(2::rat) powi (a + 1) = 2 ^ 53 * 2 powi (a - 52)"
    proof -
      have "(2::rat) powi (a - 52) = 2 powi a / 2 powi 52"
        by (rule power_int_diff) simp
      moreover have "(2::rat) powi (a + 1) = 2 powi a * 2"
        by (simp add: power_int_add)
      ultimately show ?thesis by simp
    qed
    have sy: "(2::rat) powi b = 2 ^ 52 * 2 powi (b - 52)"
    proof -
      have "(2::rat) powi (b - 52) = 2 powi b / 2 powi 52"
        by (rule power_int_diff) simp
      then show ?thesis by simp
    qed
    have "x \<le> 2 powi (a + 1)"
      using bx(2) assms(1) by (simp add: a_def)
    then have "x / 2 powi (a - 52) \<le> of_int (2 ^ 53)"
      by (simp add: sx pos_divide_le_eq)
    then have "round_even (x / 2 powi (a - 52)) \<le> round_even (of_int (2 ^ 53))"
      by (rule round_even_mono)
    then have "(of_int (round_even (x / 2 powi (a - 52))) :: rat) \<le> 2 ^ 53"
      unfolding round_even_of_int by (metis of_int_le_iff of_int_numeral of_int_power)
    then have "binary64 x \<le> 2 ^ 53 * 2 powi (a - 52)"
      unfolding fx by (intro mult_right_mono) simp_all
    then have up: "binary64 x \<le> 2 powi (a + 1)"
      by (simp only: sx)
    have "2 powi b \<le> y"
      using by'(1) y by (simp add: b_def)
    then have "of_int (2 ^ 52) \<le> y / 2 powi (b - 52)"
      by (simp add: sy pos_le_divide_eq)
    then have "round_even (of_int (2 ^ 52)) \<le> round_even (y / 2 powi (b - 52))"
      by (rule round_even_mono)
    then have "(2 ^ 52 :: rat) \<le> of_int (round_even (y / 2 powi (b - 52)))"
      unfolding round_even_of_int by (metis of_int_le_iff of_int_numeral of_int_power)
    then have "2 ^ 52 * 2 powi (b - 52) \<le> binary64 y"
      unfolding fy by (intro mult_right_mono) simp_all
    then have low: "2 powi b \<le> binary64 y"
      by (simp only: sy)
    have "(2::rat) powi (a + 1) \<le> 2 powi b"
      using 2 by (intro power_int_increasing) simp_all
    with up low show ?thesis
      by linarith
  qed
qed

lemma binary64_mono:
  assumes "x \<le> y"
  shows "binary64 x \<le> binary64 y"
proof -
  consider "0 < x" | "x \<le> 0" "0 \<le> y" | "y < 0"
    by linarith
  then show ?thesis
  proof cases
    case 1
    then show ?thesis
      using assms by (rule binary64_pos_mono)
  next
    case 2
    then show ?thesis
      using binary64_nonpos [of x] binary64_nonneg [of y] by simp
  next
    case 3
    then have "0 < - y" and "- y \<le> - x"
      using assms by simp_all
    then have "binary64 (- y) \<le> binary64 (- x)"
      by (rule binary64_pos_mono)
    then show ?thesis
      by (simp add: binary64_minus)
  qed
qed

lemma monthlyNeeded64_guard:
  assumes "monthlyNeeded goal now \<le> 0"
  shows "monthlyNeeded64 goal now \<le> 0"
proof (cases "0 < daysUntilTarget goal now")
  case False
  then show ?thesis
    by (simp add: monthlyNeeded64_def)
next
  case True
  then have q: "0 < (of_int (daysUntilTarget goal now) :: rat) / 30"
    by simp
  from assms True have "(target_amount goal - current_amount goal)
      / (of_int (daysUntilTarget goal now) / 30) \<le> 0"
    by (simp add: monthlyNeeded_def parseFloat_def)
  with q have "target_amount goal - current_amount goal \<le> 0"
    by (simp add: divide_le_0_iff)
  then have "binary64 (target_amount goal) \<le> binary64 (current_amount goal)"
    by (intro binary64_mono) simp
  then have u: "binary64 (binary64 (target_amount goal) - binary64 (current_amount goal)) \<le> 0"
    by (intro binary64_nonpos) simp
  from q have "0 < binary64 (of_int (daysUntilTarget goal now) / 30)"
    by (rule binary64_pos)
  with u have "binary64 (binary64 (target_amount goal) - binary64 (current_amount goal))
      / binary64 (of_int (daysUntilTarget goal now) / 30) \<le> 0"
    by (simp add: divide_le_0_iff)
  then have "binary64 (binary64 (binary64 (target_amount goal) - binary64 (current_amount goal))
      / binary64 (of_int (daysUntilTarget goal now) / 30)) \<le> 0"
    by (rule binary64_nonpos)
  with True show ?thesis
    by (simp add: monthlyNeeded64_def divide64_def minus64_def parseFloat64_def)
qed

lemma handleUpdateProgress_cong:
  assumes "numeric_10_2 v = numeric_10_2 v'"
  shows "handleUpdateProgress i v w = handleUpdateProgress i v' w"
  using assms by (simp add: handleUpdateProgress_def update_current_amount_def parseFloat_def)

lemma clickAdd64_cents:
  assumes "shown w" and "amountOf i w = Some a"
    and "100 * a \<in> \<int>" and "100 * valueOrZero input \<in> \<int>"
    and "\<bar>a\<bar> < 10 ^ 8" and "\<bar>valueOrZero input\<bar> < 10 ^ 8"
  shows "clickAdd64 i input w = clickAdd i input w"
proof -
  have "100 * (a + valueOrZero input) \<in> \<int>"
    using assms(3,4) by (simp add: distrib_left)
  moreover have "\<bar>(a + valueOrZero input) - (a + valueOrZero input)\<bar> < 1 / 200"
    by simp
  ultimately have "numeric_10_2 (a + valueOrZero input) =
      (if 10 ^ 8 \<le> \<bar>a + valueOrZero input\<bar> then Inl numeric_overflow
       else Inr (a + valueOrZero input))"
    by (rule numeric_10_2_near)
  with sent_cents [OF assms(3-6)]
  have "numeric_10_2 (sent a input) = numeric_10_2 (a + valueOrZero input)"
    by simp
  then have "handleUpdateProgress i (sent a input) w
      = handleUpdateProgress i (a + valueOrZero input) w"
    by (rule handleUpdateProgress_cong)
  then show ?thesis
    by (simp only: clickAdd64_request(1) [OF assms(1,2)] clickAdd_request(1) [OF assms(1,2)])
qed

end
